theory Spec2Isabelle
  imports Complex_Main "HOL-Library.Multiset" "HOL-Library.AList"
begin

section \<open>Call Break: the round and trick engine of script.js\<close>

text \<open>
  The source file holds two listings of the game. The first (lines 1 to 408) resolves a
  trick with the trump suit; its functions carry the suffix \<open>_A\<close> here where the two
  listings differ. The second (lines 410 to 774) resolves a trick by the leading suit only;
  its functions carry the suffix \<open>_B\<close>. A function with no suffix has the same body in
  both listings (apart from calls that only draw on the page).

  JavaScript numbers that the engine only counts with (bids, tricks, scores) are \<open>int\<close>;
  seat numbers, the dealer index and the round number, which the engine only increments
  from 0 and reduces modulo 4, are \<open>nat\<close>. Calls that only touch the page (render...,
  animate..., highlight...) change no field of the engine and are left out.
\<close>

subsection \<open>Card\<close>

datatype suit = Spade | Heart | Diamond | Club

datatype rank = R2 | R3 | R4 | R5 | R6 | R7 | R8 | R9 | R10 | Jack | Queen | King | Ace

record card =
  suit :: suit
  rank :: rank

text \<open>
  The getter \<open>value\<close> of a card (\<open>card_value\<close> here, since \<open>value\<close> is a keyword):
  the table \<open>order\<close> indexed by the rank.
\<close>

fun order :: "rank \<Rightarrow> int" where
  "order R2 = 2"
| "order R3 = 3"
| "order R4 = 4"
| "order R5 = 5"
| "order R6 = 6"
| "order R7 = 7"
| "order R8 = 8"
| "order R9 = 9"
| "order R10 = 10"
| "order Jack = 11"
| "order Queen = 12"
| "order King = 13"
| "order Ace = 14"

definition card_value :: "card \<Rightarrow> int" where
  "card_value c = order (rank c)"

subsection \<open>Player\<close>

record player =
  pid :: nat
  isHuman :: bool
  hand :: "card list"
  bid :: int
  tricks :: int
  score :: int

text \<open>The constructor \<open>new Player(id, isHuman)\<close>.\<close>

definition Player :: "nat \<Rightarrow> bool \<Rightarrow> player" where
  "Player i h = \<lparr>pid = i, isHuman = h, hand = [], bid = 0, tricks = 0, score = 0\<rparr>"

subsection \<open>The bidding heuristic\<close>

text \<open>
  \<open>AI_POINT_WEIGHTS\<close> and the reducer of \<open>computeBid\<close> that sums them: the branches are
  tried in the order Ace, King, Queen, Jack.
\<close>

definition hcp_step :: "int \<Rightarrow> card \<Rightarrow> int" where
  "hcp_step s c =
     (if rank c = Ace then s + 4
      else if rank c = King then s + 3
      else if rank c = Queen then s + 2
      else if rank c = Jack then s + 1
      else s)"

definition hcp :: "card list \<Rightarrow> int" where
  "hcp h = foldl hcp_step 0 h"

text \<open>
  \<open>suitCounts\<close> is an object used as a dictionary; \<open>Object.values\<close> lists its values in
  the order in which the keys were first written. An association list updated in place
  (a new key goes to the end) keeps that order. \<open>m[c.suit] || 0\<close> reads 0 for a key that
  is absent.
\<close>

definition suitCounts_step :: "(suit \<times> int) list \<Rightarrow> card \<Rightarrow> (suit \<times> int) list" where
  "suitCounts_step m c =
     AList.update (suit c) ((case map_of m (suit c) of None \<Rightarrow> 0 | Some n \<Rightarrow> n) + 1) m"

definition suitCounts :: "card list \<Rightarrow> (suit \<times> int) list" where
  "suitCounts h = foldl suitCounts_step [] h"

definition lengthBonus :: "card list \<Rightarrow> int" where
  "lengthBonus h = foldl (\<lambda>b cnt. b + max 0 (cnt - 4)) 0 (map snd (suitCounts h))"

text \<open>
  \<open>computeBid\<close> stores the bid in the player. The constant \<open>AI_ADVANCED_HEURISTIC\<close>
  (\<open>true\<close> in the source) is the first argument, so that both branches are modelled.
\<close>

definition computeBid :: "bool \<Rightarrow> player \<Rightarrow> player" where
  "computeBid advanced p =
     (if \<not> advanced then p\<lparr>bid := min 13 (hcp (hand p) div 2)\<rparr>
      else p\<lparr>bid := min 13 (hcp (hand p) div 2 + lengthBonus (hand p))\<rparr>)"

definition AI_ADVANCED_HEURISTIC :: bool where
  "AI_ADVANCED_HEURISTIC = True"

subsection \<open>The play policy of a computer seat\<close>

text \<open>
  \<open>candidates[0]\<close> of an empty array is \<open>undefined\<close>: the chosen card is a
  \<open>card option\<close>, \<open>None\<close> for \<open>undefined\<close>. \<open>c !== chosen\<close> compares objects; a deck
  creates one object for each suit and rank, so on the cards of one deal it is the
  inequality of the cards. The leading suit is \<open>null\<close> (\<open>None\<close>) before the first card of
  a trick. \<open>Array.prototype.sort\<close> is stable; so is \<open>sort_key\<close>, and sorting by the
  negated value is sorting with the comparator \<open>b.value - a.value\<close>.
\<close>

text \<open>
  In the first listing the fallback is \<open>hand.filter(c => c.suit === trumpSuit) || hand\<close>.
  An array, also an empty one, is truthy in JavaScript, so \<open>a || b\<close> on arrays is \<open>a\<close>.
\<close>

definition or_array :: "card list \<Rightarrow> card list \<Rightarrow> card list" where
  "or_array a b = a"

definition playCard_A :: "suit option \<Rightarrow> suit \<Rightarrow> player \<Rightarrow> card option \<times> player" where
  "playCard_A leadSuit trumpSuit p =
     (let h = hand p;
          candidates = filter (\<lambda>c. Some (suit c) = leadSuit) h;
          candidates = (if candidates = []
                        then or_array (filter (\<lambda>c. suit c = trumpSuit) h) h
                        else candidates);
          candidates = (if tricks p < bid p
                        then sort_key (\<lambda>c. - card_value c) candidates
                        else sort_key card_value candidates);
          chosen = (case candidates of [] \<Rightarrow> None | c # _ \<Rightarrow> Some c)
      in (chosen, p\<lparr>hand := filter (\<lambda>c. Some c \<noteq> chosen) h\<rparr>))"

text \<open>
  In the second listing the fallback is \<open>candidates = this.hand\<close>: the same array, so
  the sort that follows reorders the hand itself before the chosen card is filtered out.
\<close>

definition playCard_B :: "suit option \<Rightarrow> player \<Rightarrow> card option \<times> player" where
  "playCard_B leadingSuit p =
     (let followers = filter (\<lambda>c. Some (suit c) = leadingSuit) (hand p);
          aliased = (length followers = 0);
          candidates = (if aliased then hand p else followers);
          candidates = (if tricks p < bid p
                        then sort_key (\<lambda>c. - card_value c) candidates
                        else sort_key card_value candidates);
          h = (if aliased then candidates else hand p);
          chosen = (case candidates of [] \<Rightarrow> None | c # _ \<Rightarrow> Some c)
      in (chosen, p\<lparr>hand := filter (\<lambda>c. Some c \<noteq> chosen) h\<rparr>))"

subsection \<open>Deck\<close>

datatype error = SyntaxError | TypeError | UndefinedCard

definition suits :: "suit list" where
  "suits = [Spade, Heart, Diamond, Club]"

definition ranks :: "rank list" where
  "ranks = [R2, R3, R4, R5, R6, R7, R8, R9, R10, Jack, Queen, King, Ace]"

text \<open>The constructor: for each suit, for each rank, push the card.\<close>

definition Deck :: "card list" where
  "Deck = concat (map (\<lambda>s. map (\<lambda>r. \<lparr>suit = s, rank = r\<rparr>) ranks) suits)"

text \<open>
  \<open>shuffle\<close>: \<open>i\<close> runs from \<open>length - 1\<close> down to 1. \<open>Math.random()\<close> is the argument
  \<open>rand\<close>: \<open>rand k\<close> is the result of the call number \<open>k\<close>, a number at least 0 and
  below 1. The destructuring swap reads both cells before it writes them.
\<close>

fun shuffle_from :: "(nat \<Rightarrow> rat) \<Rightarrow> nat \<Rightarrow> nat \<Rightarrow> card list \<Rightarrow> card list" where
  "shuffle_from rand k 0 cards = cards"
| "shuffle_from rand k (Suc n) cards =
     (let i = Suc n;
          j = nat \<lfloor>rand k * of_nat (i + 1)\<rfloor>
      in shuffle_from rand (Suc k) n (cards[i := cards ! j, j := cards ! i]))"

definition shuffle :: "(nat \<Rightarrow> rat) \<Rightarrow> card list \<Rightarrow> card list" where
  "shuffle rand cards = shuffle_from rand 0 (length cards - 1) cards"

text \<open>
  \<open>cards.pop()\<close> takes the last card; on an empty array it returns \<open>undefined\<close>, which
  \<open>deal\<close> would push into the hand. A hand is a list of cards here, so the model stops
  there with \<open>UndefinedCard\<close>.
\<close>

definition pop :: "card list \<Rightarrow> (card \<times> card list) option" where
  "pop cards = (if cards = [] then None else Some (last cards, butlast cards))"

text \<open>One pass of \<open>players.forEach(p => p.hand.push(this.cards.pop()))\<close>.\<close>

fun deal_each :: "player list \<Rightarrow> card list \<Rightarrow> error + (player list \<times> card list)" where
  "deal_each [] cards = Inr ([], cards)"
| "deal_each (p # ps) cards =
     (case pop cards of
        None \<Rightarrow> Inl UndefinedCard
      | Some (c, cards') \<Rightarrow>
          (case deal_each ps cards' of
             Inl e \<Rightarrow> Inl e
           | Inr (ps', cards'') \<Rightarrow> Inr (p\<lparr>hand := hand p @ [c]\<rparr> # ps', cards'')))"

text \<open>The loop \<open>for (let i = 0; i < 13; i++)\<close>, counted down.\<close>

fun deal_loop :: "nat \<Rightarrow> player list \<Rightarrow> card list \<Rightarrow> error + (player list \<times> card list)" where
  "deal_loop 0 ps cards = Inr (ps, cards)"
| "deal_loop (Suc n) ps cards =
     (case deal_each ps cards of
        Inl e \<Rightarrow> Inl e
      | Inr (ps', cards') \<Rightarrow> deal_loop n ps' cards')"

text \<open>
  \<open>deal\<close> returns the players and what is left of the deck. The first listing empties
  the hands itself; the second does not (its \<open>startRound\<close> does so before the call).
\<close>

definition deal_A :: "(nat \<Rightarrow> rat) \<Rightarrow> card list \<Rightarrow> player list \<Rightarrow> error + (player list \<times> card list)" where
  "deal_A rand cards ps = deal_loop 13 (map (\<lambda>p. p\<lparr>hand := []\<rparr>) ps) (shuffle rand cards)"

definition deal_B :: "(nat \<Rightarrow> rat) \<Rightarrow> card list \<Rightarrow> player list \<Rightarrow> error + (player list \<times> card list)" where
  "deal_B rand cards ps = deal_loop 13 ps (shuffle rand cards)"

subsection \<open>Game\<close>

text \<open>
  \<open>this.state\<close> inside the engine: the three fields that \<open>persistHistory\<close> writes,
  each absent (\<open>None\<close>) until it is written.
\<close>

record match_state =
  scores :: "int list option"
  saved_dealerIndex :: "nat option"
  saved_round :: "nat option"

text \<open>
  A play on the table is the pair \<open>{pid, card}\<close> (\<open>{playerId, card}\<close> in the second
  listing, where the table is called \<open>tableCards\<close>). The field \<open>round\<close> is
  \<open>roundNumber\<close> here. The second listing has no \<open>trumpSuit\<close> and never reads it.
\<close>

type_synonym play = "nat \<times> card"

record game =
  players :: "player list"
  dealerIndex :: nat
  roundNumber :: nat
  trumpSuit :: suit
  leadingSuit :: "suit option"
  playOrder :: "nat list"
  table :: "play list"
  state :: match_state

text \<open>
  The engine stops and waits at four places: for a card of the human seat
  (\<open>highlightLegal\<close>), for the timer of a computer seat (\<open>setTimeout\<close> in
  \<open>nextToPlay\<close>, with the seat and the index in the play order), for the end of the
  animation of a won trick (the promise of \<open>animateTrickWin\<close>, after which \<open>playTrick\<close>
  runs), and for the button of the next round (enabled by \<open>finishRound\<close>).
\<close>

datatype waiting = ForHuman | ForComputer nat nat | ForAnimation | ForNextRound

definition persistHistory :: "game \<Rightarrow> game" where
  "persistHistory g =
     g\<lparr>state := \<lparr>scores = Some (map score (players g)),
                  saved_dealerIndex = Some (dealerIndex g),
                  saved_round = Some (roundNumber g)\<rparr>\<rparr>"

text \<open>\<open>finishRound\<close>: the score of every player, then \<open>persistHistory\<close>.\<close>

definition finishRound :: "game \<Rightarrow> game" where
  "finishRound g =
     persistHistory
       (g\<lparr>players :=
            map (\<lambda>p. let delta = (if tricks p \<ge> bid p
                                    then bid p * 10 + (tricks p - bid p)
                                    else - bid p * 10)
                      in p\<lparr>score := score p + delta\<rparr>)
                (players g)\<rparr>)"

text \<open>\<open>determineTurnOrder\<close>: the loop pushes the seat for \<open>i\<close> = 1, 2, 3, 4.\<close>

definition determineTurnOrder :: "game \<Rightarrow> game" where
  "determineTurnOrder g = g\<lparr>playOrder := map (\<lambda>i. (dealerIndex g + i) mod 4) [1, 2, 3, 4]\<rparr>"

text \<open>
  \<open>isLegal\<close> reads \<open>this.players[0]\<close> only when a leading suit is set; with no player
  there the read of \<open>.hand\<close> is a TypeError.
\<close>

definition isLegal :: "game \<Rightarrow> card \<Rightarrow> error + bool" where
  "isLegal g c =
     (case leadingSuit g of
        None \<Rightarrow> Inr True
      | Some l \<Rightarrow>
          (case players g of
             [] \<Rightarrow> Inl TypeError
           | p0 # _ \<Rightarrow>
               (let hasLead = list_ex (\<lambda>c'. suit c' = l) (hand p0)
                in Inr (\<not> hasLead \<or> suit c = l))))"

text \<open>\<open>placeCard\<close> (first listing): the first card of a trick sets the leading suit.\<close>

definition placeCard :: "game \<Rightarrow> nat \<Rightarrow> card \<Rightarrow> game" where
  "placeCard g p c =
     g\<lparr>leadingSuit := (case leadingSuit g of None \<Rightarrow> Some (suit c) | Some l \<Rightarrow> Some l),
       table := table g @ [(p, c)]\<rparr>"

text \<open>
  \<open>placeOnTable\<close> (second listing) also schedules \<open>resolveTrick\<close> when the table holds
  four plays: the second component.
\<close>

definition placeOnTable :: "game \<Rightarrow> nat \<Rightarrow> card \<Rightarrow> game \<times> bool" where
  "placeOnTable g p c =
     (let g' = g\<lparr>leadingSuit := (case leadingSuit g of None \<Rightarrow> Some (suit c) | Some l \<Rightarrow> Some l),
                  table := table g @ [(p, c)]\<rparr>
      in (g', length (table g') = 4))"

text \<open>
  The body of the \<open>forEach\<close> in \<open>resolveTrick\<close> of the first listing: the play \<open>t\<close>
  replaces \<open>winning\<close> when one of the three conditions holds.
\<close>

definition winning_step :: "suit \<Rightarrow> suit option \<Rightarrow> play \<Rightarrow> play \<Rightarrow> play" where
  "winning_step trump lead winning t =
     (let isTrump = (suit (snd t) = trump);
          winIsTrump = (suit (snd winning) = trump)
      in if (isTrump \<and> \<not> winIsTrump) \<or>
            (Some (suit (snd t)) = lead \<and> Some (suit (snd winning)) \<noteq> lead \<and> \<not> isTrump) \<or>
            (suit (snd t) = suit (snd winning) \<and> card_value (snd t) > card_value (snd winning))
         then t else winning)"

text \<open>
  \<open>winning\<close> starts as \<open>this.table[0]\<close>, which is \<open>undefined\<close> on an empty table; the
  loop then does nothing and \<open>winning.pid\<close> is a TypeError.
\<close>

definition winning_A :: "game \<Rightarrow> error + play" where
  "winning_A g =
     (case table g of
        [] \<Rightarrow> Inl TypeError
      | t0 # _ \<Rightarrow> Inr (foldl (winning_step (trumpSuit g) (leadingSuit g)) t0 (table g)))"

text \<open>\<open>players[i].tricks++\<close>; \<open>players[i]\<close> is \<open>undefined\<close> out of range (a TypeError).\<close>

definition add_trick :: "nat \<Rightarrow> game \<Rightarrow> error + game" where
  "add_trick i g =
     (if i < length (players g)
      then Inr (g\<lparr>players := (players g)[i := (players g ! i)\<lparr>tricks := tricks (players g ! i) + 1\<rparr>]\<rparr>)
      else Inl TypeError)"

text \<open>
  \<open>resolveTrick\<close> of the first listing, up to the promise: the winner gets the trick
  and the engine waits for the animation.
\<close>

definition resolveTrick_A :: "game \<Rightarrow> error + (game \<times> waiting)" where
  "resolveTrick_A g =
     (case winning_A g of
        Inl e \<Rightarrow> Inl e
      | Inr winning \<Rightarrow>
          (case add_trick (fst winning) g of
             Inl e \<Rightarrow> Inl e
           | Inr g' \<Rightarrow> Inr (g', ForAnimation)))"

text \<open>
  \<open>nextToPlay\<close> of the first listing. \<open>this.playOrder[idx]\<close> and \<open>this.players[pid]\<close>
  are \<open>undefined\<close> out of range, and \<open>p.isHuman\<close> is then a TypeError.
\<close>

definition nextToPlay_A :: "game \<Rightarrow> nat \<Rightarrow> error + (game \<times> waiting)" where
  "nextToPlay_A g idx =
     (if idx \<ge> 4 then resolveTrick_A g
      else if idx < length (playOrder g) \<and> playOrder g ! idx < length (players g)
      then (let i = playOrder g ! idx
            in if isHuman (players g ! i) then Inr (g, ForHuman) else Inr (g, ForComputer i idx))
      else Inl TypeError)"

definition playTrick_A :: "game \<Rightarrow> error + (game \<times> waiting)" where
  "playTrick_A g =
     (case players g of
        [] \<Rightarrow> Inl TypeError
      | p0 # _ \<Rightarrow>
          if hand p0 = [] then Inr (finishRound g, ForNextRound)
          else nextToPlay_A (g\<lparr>table := [], leadingSuit := None\<rparr>) 0)"

text \<open>
  \<open>onHumanBid\<close>: \<open>v\<close> is the result of \<open>parseInt\<close>, \<open>None\<close> for \<open>NaN\<close>. A bid that is
  refused leaves the engine as it is, still waiting for the bid (\<open>None\<close>).
\<close>

definition onHumanBid_A :: "game \<Rightarrow> int option \<Rightarrow> (error + (game \<times> waiting)) option" where
  "onHumanBid_A g v =
     (case v of
        None \<Rightarrow> None
      | Some n \<Rightarrow>
          if n < 0 \<or> n > 13 then None
          else (case players g of
                  [] \<Rightarrow> Some (Inl TypeError)
                | p0 # ps \<Rightarrow> Some (playTrick_A (determineTurnOrder (g\<lparr>players := p0\<lparr>bid := n\<rparr> # ps\<rparr>)))))"

text \<open>
  The timer callback that \<open>nextToPlay\<close> of the first listing sets for the computer seat
  \<open>i\<close> at the index \<open>idx\<close>: \<open>playCard\<close>, \<open>placeCard\<close>, \<open>nextToPlay(idx+1)\<close>. When
  \<open>playCard\<close> returns \<open>undefined\<close>, \<open>placeCard\<close> throws a TypeError (at \<open>card.suit\<close>,
  or at \<open>card.toString()\<close> in \<open>animateToCenter\<close>) and \<open>nextToPlay\<close> is not reached.
\<close>

definition computerPlays_A :: "game \<Rightarrow> nat \<Rightarrow> nat \<Rightarrow> error + (game \<times> waiting)" where
  "computerPlays_A g i idx =
     (if i < length (players g)
      then (case playCard_A (leadingSuit g) (trumpSuit g) (players g ! i) of
              (None, p') \<Rightarrow> Inl TypeError
            | (Some c, p') \<Rightarrow>
                nextToPlay_A (placeCard (g\<lparr>players := (players g)[i := p']\<rparr>) i c) (idx + 1))
      else Inl TypeError)"

text \<open>
  \<open>onCardClick\<close> of the first listing: a card that is not legal is ignored (\<open>None\<close>);
  a legal one leaves the hand of seat 0 and goes to the table, and \<open>nextToPlay\<close> goes on
  at the index \<open>this.table.length\<close>.
\<close>

definition onCardClick_A :: "game \<Rightarrow> card \<Rightarrow> (error + (game \<times> waiting)) option" where
  "onCardClick_A g c =
     (case isLegal g c of
        Inl e \<Rightarrow> Some (Inl e)
      | Inr legal \<Rightarrow>
          if \<not> legal then None
          else (case players g of
                  [] \<Rightarrow> Some (Inl TypeError)
                | p0 # ps \<Rightarrow>
                    (let g' = placeCard (g\<lparr>players := p0\<lparr>hand := filter (\<lambda>c'. c' \<noteq> c) (hand p0)\<rparr> # ps\<rparr>) 0 c
                     in Some (nextToPlay_A g' (length (table g'))))))"

text \<open>
  The first listing, driven by the events the engine waits for: the timer of the
  computer seat it waits for fires, the human seat clicks a card while the engine waits
  for it (a card that is not legal is ignored and the engine goes on waiting), or the
  animation of a won trick ends. \<open>step_A\<close> is \<open>None\<close> for an event the engine does
  not wait for; \<open>run_A\<close> handles a list of events and stops at the first error or at
  the first event that is not awaited.
\<close>

datatype event = TimerFires | CardClicked card | AnimationEnds

fun step_A :: "game \<times> waiting \<Rightarrow> event \<Rightarrow> (error + game \<times> waiting) option" where
  "step_A (g, ForComputer i idx) TimerFires = Some (computerPlays_A g i idx)"
| "step_A (g, ForHuman) (CardClicked c) =
     (case onCardClick_A g c of None \<Rightarrow> Some (Inr (g, ForHuman)) | Some r \<Rightarrow> Some r)"
| "step_A (g, ForAnimation) AnimationEnds = Some (playTrick_A g)"
| "step_A (g, w) e = None"

fun run_A :: "game \<times> waiting \<Rightarrow> event list \<Rightarrow> (error + game \<times> waiting) option" where
  "run_A c [] = Some (Inr c)"
| "run_A c (e # es) =
     (case step_A c e of
        Some (Inr c') \<Rightarrow> run_A c' es
      | r \<Rightarrow> r)"

text \<open>
  The second listing. \<open>nextToPlay\<close> has no test of \<open>idx\<close>; \<open>resolveTrick\<close> filters the
  table by the leading suit and reduces with no initial value (a TypeError on an empty
  array), makes the winner the dealer, and calls \<open>playTrick\<close> at once.
\<close>

definition nextToPlay_B :: "game \<Rightarrow> nat \<Rightarrow> error + (game \<times> waiting)" where
  "nextToPlay_B g idx =
     (if idx < length (playOrder g) \<and> playOrder g ! idx < length (players g)
      then (let i = playOrder g ! idx
            in if isHuman (players g ! i) then Inr (g, ForHuman) else Inr (g, ForComputer i idx))
      else Inl TypeError)"

definition playTrick_B :: "game \<Rightarrow> error + (game \<times> waiting)" where
  "playTrick_B g =
     (case players g of
        [] \<Rightarrow> Inl TypeError
      | p0 # _ \<Rightarrow>
          if length (hand p0) = 0 then Inr (finishRound g, ForNextRound)
          else nextToPlay_B (g\<lparr>table := [], leadingSuit := None\<rparr>) 0)"

definition winning_B :: "game \<Rightarrow> error + play" where
  "winning_B g =
     (case filter (\<lambda>t. Some (suit (snd t)) = leadingSuit g) (table g) of
        [] \<Rightarrow> Inl TypeError
      | t0 # ts \<Rightarrow>
          Inr (foldl (\<lambda>best t. if card_value (snd t) > card_value (snd best) then t else best) t0 ts))"

definition resolveTrick_B :: "game \<Rightarrow> error + (game \<times> waiting)" where
  "resolveTrick_B g =
     (case winning_B g of
        Inl e \<Rightarrow> Inl e
      | Inr winning \<Rightarrow>
          (case add_trick (fst winning) g of
             Inl e \<Rightarrow> Inl e
           | Inr g' \<Rightarrow> playTrick_B (g'\<lparr>dealerIndex := fst winning\<rparr>)))"

text \<open>
  \<open>startRound\<close>. The deck is local and dropped after the deal. In the first listing the
  trump suit is drawn with the call of \<open>Math.random\<close> that follows the 51 calls of the
  shuffle. \<open>players.slice(1)\<close> are the computer seats, which bid at once.
\<close>

definition computer_bids :: "player list \<Rightarrow> player list" where
  "computer_bids ps =
     (case ps of [] \<Rightarrow> [] | p0 # ais \<Rightarrow> p0 # map (computeBid AI_ADVANCED_HEURISTIC) ais)"

definition startRound_A :: "(nat \<Rightarrow> rat) \<Rightarrow> game \<Rightarrow> error + game" where
  "startRound_A rand g =
     (let g1 = g\<lparr>roundNumber := roundNumber g + 1, leadingSuit := None, playOrder := [], table := [],
                  players := map (\<lambda>p. p\<lparr>tricks := 0\<rparr>) (players g)\<rparr>
      in case deal_A rand Deck (players g1) of
           Inl e \<Rightarrow> Inl e
         | Inr (ps, _) \<Rightarrow>
             Inr (g1\<lparr>players := computer_bids ps,
                     dealerIndex := (dealerIndex g1 + 1) mod 4,
                     trumpSuit := suits ! nat \<lfloor>rand (length Deck - 1) * 4\<rfloor>\<rparr>))"

definition startRound_B :: "(nat \<Rightarrow> rat) \<Rightarrow> game \<Rightarrow> error + game" where
  "startRound_B rand g =
     (let g1 = g\<lparr>roundNumber := roundNumber g + 1, leadingSuit := None, playOrder := [], table := [],
                  players := map (\<lambda>p. p\<lparr>hand := [], tricks := 0\<rparr>) (players g)\<rparr>
      in case deal_B rand Deck (players g1) of
           Inl e \<Rightarrow> Inl e
         | Inr (ps, _) \<Rightarrow>
             Inr (g1\<lparr>players := computer_bids ps,
                     dealerIndex := (dealerIndex g1 + 1) mod 4\<rparr>))"

subsection \<open>Loading the match state\<close>

text \<open>
  \<open>loadState\<close> is \<open>JSON.parse(localStorage.getItem(STORAGE_KEY) || '{}')\<close>. The two
  platform calls are not part of the program; what they do with the stored item is the
  input of the model: \<open>getItem\<close> returns \<open>null\<close> when nothing is stored (\<open>NoItem\<close>);
  the stored text can be empty (\<open>EmptyText\<close>, falsy like \<open>null\<close>); \<open>JSON.parse\<close> throws
  a SyntaxError on a text that is not JSON (\<open>NotJSON\<close>) and otherwise returns the value
  the text denotes (\<open>JSONText\<close>). \<open>JSON.parse('{}')\<close> is the empty object.
\<close>

datatype json =
  JNull | JBool bool | JNum rat | JStr string | JArr "json list" | JObj "(string \<times> json) list"

datatype stored = NoItem | EmptyText | NotJSON | JSONText json

fun loadState :: "stored \<Rightarrow> error + json" where
  "loadState NoItem = Inr (JObj [])"
| "loadState EmptyText = Inr (JObj [])"
| "loadState NotJSON = Inl SyntaxError"
| "loadState (JSONText v) = Inr v"

text \<open>
  A value read from the state is a \<open>json option\<close>, \<open>None\<close> for \<open>undefined\<close>.
  \<open>truthy\<close> is the test of \<open>if (v)\<close> and of \<open>v || 0\<close>.
\<close>

fun truthy :: "json option \<Rightarrow> bool" where
  "truthy None = False"
| "truthy (Some JNull) = False"
| "truthy (Some (JBool b)) = b"
| "truthy (Some (JNum n)) = (n \<noteq> 0)"
| "truthy (Some (JStr s)) = (s \<noteq> [])"
| "truthy (Some (JArr xs)) = True"
| "truthy (Some (JObj kvs)) = True"

fun or_zero :: "json option \<Rightarrow> json" where
  "or_zero None = JNum 0"
| "or_zero (Some v) = (if truthy (Some v) then v else JNum 0)"

text \<open>
  \<open>state.scores\<close>, \<open>state.dealerIndex\<close>, \<open>state.round\<close>: reading a property of \<open>null\<close>
  is a TypeError; an object has the property if the text had the key (the last one, if
  it came twice); a number, a boolean, a string or an array has no property of these
  three names.
\<close>

fun get_prop :: "json \<Rightarrow> string \<Rightarrow> error + json option" where
  "get_prop JNull k = Inl TypeError"
| "get_prop (JObj kvs) k = Inr (map_of (rev kvs) k)"
| "get_prop v k = Inr None"

text \<open>
  \<open>scores[i]\<close> for the seat \<open>i\<close> (0 to 3) of a truthy \<open>scores\<close>: an element of an
  array, a character of a string, the property named by the digit of an object;
  \<open>undefined\<close> for a number or a boolean.
\<close>

definition index_key :: "nat \<Rightarrow> string" where
  "index_key i = [char_of (48 + i)]"

fun get_index :: "json \<Rightarrow> nat \<Rightarrow> json option" where
  "get_index (JArr xs) i = (if i < length xs then Some (xs ! i) else None)"
| "get_index (JStr s) i = (if i < length s then Some (JStr [s ! i]) else None)"
| "get_index (JObj kvs) i = map_of (rev kvs) (index_key i)"
| "get_index v i = None"

text \<open>
  What the constructor holds of the match after \<open>restoreHistory\<close>: the score of each of
  the four players, the dealer index and the round, as the values read from the state.
  Before \<open>restoreHistory\<close> all of them are 0 (\<open>fresh_match\<close>).
\<close>

record restored =
  r_scores :: "json list"
  r_dealerIndex :: json
  r_round :: json

definition fresh_match :: restored where
  "fresh_match = \<lparr>r_scores = [JNum 0, JNum 0, JNum 0, JNum 0], r_dealerIndex = JNum 0, r_round = JNum 0\<rparr>"

definition restoreHistory :: "json \<Rightarrow> error + restored" where
  "restoreHistory st =
     (case get_prop st ''scores'' of
        Inl e \<Rightarrow> Inl e
      | Inr sc \<Rightarrow>
          if truthy sc then
            (case (sc, get_prop st ''dealerIndex'', get_prop st ''round'') of
               (Some s, Inr d, Inr r) \<Rightarrow>
                 Inr \<lparr>r_scores = map (\<lambda>i. or_zero (get_index s i)) [0..<4],
                      r_dealerIndex = or_zero d,
                      r_round = or_zero r\<rparr>
             | _ \<Rightarrow> Inl TypeError)
          else Inr fresh_match)"

text \<open>The two steps of the constructor: \<open>this.state = loadState(); this.restoreHistory()\<close>.\<close>

definition load_match :: "stored \<Rightarrow> error + restored" where
  "load_match item = (case loadState item of Inl e \<Rightarrow> Inl e | Inr st \<Rightarrow> restoreHistory st)"

section \<open>The specification's words, and sample states\<close>

text \<open>
  High-card points as the specification counts them: Ace 4, King 3, Queen 2, Jack 1.
\<close>

definition HCP_spec :: "card list \<Rightarrow> int" where
  "HCP_spec h =
     sum_list (map (\<lambda>c. case rank c of Ace \<Rightarrow> 4 | King \<Rightarrow> 3 | Queen \<Rightarrow> 2 | Jack \<Rightarrow> 1 | _ \<Rightarrow> 0) h)"

definition cardsInSuit :: "card list \<Rightarrow> suit \<Rightarrow> int" where
  "cardsInSuit h s = int (length (filter (\<lambda>c. suit c = s) h))"

text \<open>The length bonus of the specification: summed over the four suits.\<close>

definition lengthBonus_spec :: "card list \<Rightarrow> int" where
  "lengthBonus_spec h = sum_list (map (\<lambda>s. max 0 (cardsInSuit h s - 4)) [Spade, Heart, Diamond, Club])"

text \<open>The count that \<open>suitCounts\<close> holds for a suit, 0 for a suit that is not a key.\<close>

definition cnt :: "(suit \<times> int) list \<Rightarrow> suit \<Rightarrow> int" where
  "cnt m s = (case map_of m s of None \<Rightarrow> 0 | Some n \<Rightarrow> n)"

text \<open>
  The outcome of a deal to four seats that the specification asks for: the deck is
  used up, every seat holds 13 cards, no card is in two hands, and every card (every
  pair of a suit and a rank) is in some hand.
\<close>

definition well_dealt :: "error + (player list \<times> card list) \<Rightarrow> bool" where
  "well_dealt r =
     (case r of
        Inl e \<Rightarrow> False
      | Inr (ps, cards) \<Rightarrow>
          cards = [] \<and> length ps = 4 \<and>
          (\<forall>i<4. length (hand (ps ! i)) = 13) \<and>
          (\<forall>i<4. \<forall>j<4. i \<noteq> j \<longrightarrow> set (hand (ps ! i)) \<inter> set (hand (ps ! j)) = {}) \<and>
          (\<Union>i<4. set (hand (ps ! i))) = UNIV)"

text \<open>
  The choice of the play policy in the words of the specification: the chosen card is
  a candidate, of the highest value among the candidates when the seat has won fewer
  tricks than it bid, and of the lowest value otherwise.
\<close>

definition choice_ok :: "player \<Rightarrow> card list \<Rightarrow> card \<Rightarrow> bool" where
  "choice_ok p candidates c =
     (c \<in> set candidates \<and>
      (if tricks p < bid p then \<forall>x \<in> set candidates. card_value x \<le> card_value c
       else \<forall>x \<in> set candidates. card_value c \<le> card_value x))"

text \<open>
  The seats as the constructor makes them: four, of which seat 0 alone is human.
\<close>

definition seat0_human :: "game \<Rightarrow> bool" where
  "seat0_human g = (length (players g) = 4 \<and> (\<forall>i<4. isHuman (players g ! i) = (i = 0)))"

text \<open>
  The plays on the table follow the play order: the seats of the plays so far are the
  first entries of \<open>playOrder\<close>, and the seat the engine waits for is the next entry.
\<close>

definition in_order :: "game \<times> waiting \<Rightarrow> bool" where
  "in_order c =
     (case c of (g, w) \<Rightarrow>
        length (playOrder g) = 4 \<and> (\<forall>x \<in> set (playOrder g). x < 4) \<and> seat0_human g \<and>
        map fst (table g) = take (length (table g)) (playOrder g) \<and>
        (case w of
           ForHuman \<Rightarrow> length (table g) < 4 \<and> playOrder g ! length (table g) = 0
         | ForComputer i idx \<Rightarrow> idx = length (table g) \<and> idx < 4 \<and> i = playOrder g ! idx
         | ForAnimation \<Rightarrow> length (table g) = 4
         | ForNextRound \<Rightarrow> True))"

text \<open>A source of random numbers that always returns 0.\<close>

definition no_random :: "nat \<Rightarrow> rat" where
  "no_random k = 0"

text \<open>
  The fields that the constructor of \<open>Game\<close> sets before it loads the state: the human
  seat 0 and three computer seats.
\<close>

definition Game :: game where
  "Game = \<lparr>players = [Player 0 True, Player 1 False, Player 2 False, Player 3 False],
            dealerIndex = 0, roundNumber = 0, trumpSuit = Spade, leadingSuit = None,
            playOrder = [], table = [],
            state = \<lparr>scores = None, saved_dealerIndex = None, saved_round = None\<rparr>\<rparr>"

text \<open>The end of a round: bids and tricks of the four seats before \<open>finishRound\<close>.\<close>

definition scored_round :: game where
  "scored_round =
     Game\<lparr>players := [(Player 0 True)\<lparr>bid := 5, tricks := 7, score := 10\<rparr>,
                       (Player 1 False)\<lparr>bid := 5, tricks := 3\<rparr>,
                       (Player 2 False)\<lparr>bid := 0, tricks := 0\<rparr>,
                       (Player 3 False)\<lparr>bid := 3, tricks := 3, score := -20\<rparr>]\<rparr>"

text \<open>A trick led with a heart, while the human seat holds one heart and one spade.\<close>

definition hearts_led :: game where
  "hearts_led =
     Game\<lparr>players := [(Player 0 True)\<lparr>hand := [\<lparr>suit = Heart, rank = R2\<rparr>, \<lparr>suit = Spade, rank = R3\<rparr>]\<rparr>,
                       Player 1 False, Player 2 False, Player 3 False],
          leadingSuit := Some Heart\<rparr>"

text \<open>
  The start of a trick: the two assignments of \<open>playTrick\<close> before the first play.
  \<open>place_all_A\<close> puts a list of plays on the table with \<open>placeCard\<close>, one after the
  other; \<open>place_all_B\<close> does so with \<open>placeOnTable\<close>.
\<close>

definition new_trick :: "game \<Rightarrow> game" where
  "new_trick g = g\<lparr>table := [], leadingSuit := None\<rparr>"

definition place_all_A :: "game \<Rightarrow> play list \<Rightarrow> game" where
  "place_all_A g ps = foldl (\<lambda>g' t. placeCard g' (fst t) (snd t)) g ps"

definition place_all_B :: "game \<Rightarrow> play list \<Rightarrow> game" where
  "place_all_B g ps = foldl (\<lambda>g' t. fst (placeOnTable g' (fst t) (snd t))) g ps"

text \<open>
  A trick of the first listing with spades as trump and dealer 3, so that the human
  seat 0 leads: seat 0 leads the 3 of hearts, seat 1 has no heart and plays the 2 of
  spades, seat 2 follows with the ace of hearts and seat 3 with the 4 of hearts.
  \<open>trump_last_trick\<close> holds the same four cards with the spade placed last.
\<close>

definition trumped_trick :: game where
  "trumped_trick =
     placeCard (placeCard (placeCard (placeCard (determineTurnOrder (Game\<lparr>dealerIndex := 3\<rparr>))
       0 \<lparr>suit = Heart, rank = R3\<rparr>)
       1 \<lparr>suit = Spade, rank = R2\<rparr>)
       2 \<lparr>suit = Heart, rank = Ace\<rparr>)
       3 \<lparr>suit = Heart, rank = R4\<rparr>"

definition trump_last_trick :: game where
  "trump_last_trick =
     placeCard (placeCard (placeCard (placeCard (determineTurnOrder (Game\<lparr>dealerIndex := 3\<rparr>))
       0 \<lparr>suit = Heart, rank = R3\<rparr>)
       1 \<lparr>suit = Heart, rank = Ace\<rparr>)
       2 \<lparr>suit = Heart, rank = R4\<rparr>)
       3 \<lparr>suit = Spade, rank = R2\<rparr>"

text \<open>A computer seat that holds a diamond and a club, and has bid one trick.\<close>

definition void_seat :: player where
  "void_seat =
     (Player 1 False)\<lparr>hand := [\<lparr>suit = Diamond, rank = R5\<rparr>, \<lparr>suit = Club, rank = R9\<rparr>], bid := 1\<rparr>"

text \<open>
  A round of the first listing with dealer 3, so that the play order is 0, 1, 2, 3, in
  which every seat has one card left after a trick of four hearts that seat 1 wins with
  the ace. \<open>hearts_won\<close> is that trick after seat 1 has been given it.
\<close>

definition second_trick_base :: game where
  "second_trick_base =
     Game\<lparr>dealerIndex := 3,
          players := [(Player 0 True)\<lparr>hand := [\<lparr>suit = Club, rank = R7\<rparr>]\<rparr>,
                      (Player 1 False)\<lparr>hand := [\<lparr>suit = Club, rank = R8\<rparr>]\<rparr>,
                      (Player 2 False)\<lparr>hand := [\<lparr>suit = Club, rank = R9\<rparr>]\<rparr>,
                      (Player 3 False)\<lparr>hand := [\<lparr>suit = Club, rank = R10\<rparr>]\<rparr>]\<rparr>"

definition hearts_plays :: "play list" where
  "hearts_plays = [(0, \<lparr>suit = Heart, rank = R3\<rparr>), (1, \<lparr>suit = Heart, rank = Ace\<rparr>),
                   (2, \<lparr>suit = Heart, rank = R4\<rparr>), (3, \<lparr>suit = Heart, rank = R5\<rparr>)]"

definition hearts_trick :: game where
  "hearts_trick = place_all_A (new_trick (determineTurnOrder second_trick_base)) hearts_plays"

definition hearts_won :: game where
  "hearts_won =
     hearts_trick\<lparr>players := (players hearts_trick)[1 := (players hearts_trick ! 1)\<lparr>tricks := 1\<rparr>]\<rparr>"






text \<open>
  The second listing, with dealer 0, so that the play order is 1, 2, 3, 0 and the human
  seat plays last: a trick of four hearts that seat 2 wins with the ace.
  \<open>hearts_trick_B\<close> is such a trick in the middle of a round (every seat has one card
  left); \<open>last_trick_B\<close> is the last trick of round 2 (no seat has a card left).
  \<open>hearts_won_B\<close> and \<open>last_won_B\<close> are these states after \<open>resolveTrick\<close> has given
  the trick to seat 2 and made seat 2 the dealer.
\<close>

definition hearts_plays_B :: "play list" where
  "hearts_plays_B = [(1, \<lparr>suit = Heart, rank = R3\<rparr>), (2, \<lparr>suit = Heart, rank = Ace\<rparr>),
                     (3, \<lparr>suit = Heart, rank = R4\<rparr>), (0, \<lparr>suit = Heart, rank = R5\<rparr>)]"

definition hearts_trick_B :: game where
  "hearts_trick_B =
     place_all_B (new_trick (determineTurnOrder (second_trick_base\<lparr>dealerIndex := 0\<rparr>))) hearts_plays_B"

definition hearts_won_B :: game where
  "hearts_won_B =
     hearts_trick_B\<lparr>players := (players hearts_trick_B)[2 := (players hearts_trick_B ! 2)\<lparr>tricks := 1\<rparr>],
                    dealerIndex := 2\<rparr>"

definition last_trick_B :: game where
  "last_trick_B =
     place_all_B (new_trick (determineTurnOrder (Game\<lparr>dealerIndex := 0, roundNumber := 2\<rparr>))) hearts_plays_B"

definition last_won_B :: game where
  "last_won_B =
     last_trick_B\<lparr>players := (players last_trick_B)[2 := (players last_trick_B ! 2)\<lparr>tricks := 1\<rparr>],
                  dealerIndex := 2\<rparr>"

section \<open>Properties\<close>

subsection \<open>Bidding\<close>

lemma hcp_foldl: "foldl hcp_step a h = a + HCP_spec h"
  by (induction h arbitrary: a) (auto simp: hcp_step_def HCP_spec_def split: rank.splits)

lemma hcp_eq: "hcp h = HCP_spec h"
  by (simp add: hcp_def hcp_foldl)

lemma HCP_spec_nonneg: "0 \<le> HCP_spec h"
  unfolding HCP_spec_def by (induction h) (auto split: rank.splits)

lemma step_distinct: "distinct (map fst m) \<Longrightarrow> distinct (map fst (suitCounts_step m c))"
  by (simp add: suitCounts_step_def distinct_update)

lemma step_cnt: "cnt (suitCounts_step m c) s = cnt m s + (if suit c = s then 1 else 0)"
  by (auto simp: suitCounts_step_def cnt_def update_conv' split: option.splits)

lemma foldl_distinct: "distinct (map fst m) \<Longrightarrow> distinct (map fst (foldl suitCounts_step m h))"
  by (induction h arbitrary: m) (auto simp: step_distinct)

lemma foldl_cnt: "cnt (foldl suitCounts_step m h) s = cnt m s + cardsInSuit h s"
  by (induction h arbitrary: m) (auto simp: step_cnt cardsInSuit_def)

lemma bonus_foldl: "foldl (\<lambda>b n. b + max 0 (n - 4)) a vs = a + sum_list (map (\<lambda>n. max 0 (n - (4::int))) vs)"
  by (induction vs arbitrary: a) auto

lemma UNIV_suit: "(UNIV :: suit set) = {Spade, Heart, Diamond, Club}"
  by (auto intro: suit.exhaust)

lemma sum_alist:
  "distinct (map fst m) \<Longrightarrow>
   sum_list (map (\<lambda>kv. f (snd kv)) m) = (\<Sum>s\<in>(UNIV::suit set). case map_of m s of None \<Rightarrow> 0 | Some n \<Rightarrow> (f n :: int))"
proof (induction m)
  case Nil
  then show ?case by simp
next
  case (Cons kv m)
  obtain k v where kv: "kv = (k, v)" by (cases kv)
  have fin: "finite (UNIV :: suit set)" by (simp add: UNIV_suit)
  from Cons.prems kv have nk: "map_of m k = None"
    by (simp add: map_of_eq_None_iff)
  have "(\<Sum>s\<in>UNIV. case map_of (kv # m) s of None \<Rightarrow> 0 | Some n \<Rightarrow> f n)
      = (\<Sum>s\<in>UNIV. (if s = k then f v else 0) + (case map_of m s of None \<Rightarrow> 0 | Some n \<Rightarrow> f n))"
    by (rule sum.cong) (auto simp: kv nk)
  also have "\<dots> = f v + (\<Sum>s\<in>UNIV. case map_of m s of None \<Rightarrow> 0 | Some n \<Rightarrow> f n)"
    by (simp add: sum.distrib fin)
  finally show ?case using Cons by (simp add: kv)
qed

lemma lengthBonus_eq: "lengthBonus h = lengthBonus_spec h"
proof -
  let ?m = "suitCounts h"
  have d: "distinct (map fst ?m)" unfolding suitCounts_def by (rule foldl_distinct) simp
  have c: "cnt ?m s = cardsInSuit h s" for s
    unfolding suitCounts_def by (simp add: foldl_cnt) (simp add: cnt_def)
  have nn: "0 \<le> cardsInSuit h s" for s by (simp add: cardsInSuit_def)
  have g: "(case map_of ?m s of None \<Rightarrow> 0 | Some n \<Rightarrow> max 0 (n - 4)) = max 0 (cardsInSuit h s - 4)" for s
    using c[of s] nn[of s] by (auto simp: cnt_def split: option.splits)
  have "lengthBonus h = sum_list (map (\<lambda>kv. max 0 (snd kv - 4)) ?m)"
    by (simp add: lengthBonus_def bonus_foldl comp_def)
  also have "\<dots> = (\<Sum>s\<in>UNIV. case map_of ?m s of None \<Rightarrow> 0 | Some n \<Rightarrow> max 0 (n - 4))"
    by (rule sum_alist[OF d])
  also have "\<dots> = (\<Sum>s\<in>UNIV. max 0 (cardsInSuit h s - 4))"
    by (simp add: g)
  also have "\<dots> = lengthBonus_spec h"
    by (simp add: UNIV_suit lengthBonus_spec_def)
  finally show ?thesis .
qed

lemma lengthBonus_spec_nonneg: "0 \<le> lengthBonus_spec h"
  by (simp add: lengthBonus_spec_def)

text \<open>
  Claim C8. \<open>computeBid\<close> is a function of the hand and the mode flag alone (it has no
  other input, so two runs on the same hand and flag give the same bid). The bid is
  \<open>min(13, floor(HCP/2))\<close> in simple mode and
  \<open>min(13, floor(HCP/2) + sum over the suits of max(0, cardsInSuit - 4))\<close> in advanced
  mode, with the points Ace 4, King 3, Queen 2, Jack 1; it lies between 0 and 13; and
  \<open>computeBid\<close> changes nothing else of the player.
\<close>

theorem computeBid_bid:
  "bid (computeBid advanced p) =
     min 13 (HCP_spec (hand p) div 2 + (if advanced then lengthBonus_spec (hand p) else 0))
   \<and> 0 \<le> bid (computeBid advanced p) \<and> bid (computeBid advanced p) \<le> 13
   \<and> computeBid advanced p = p\<lparr>bid := bid (computeBid advanced p)\<rparr>"
  using HCP_spec_nonneg[of "hand p"] lengthBonus_spec_nonneg[of "hand p"]
  by (auto simp: computeBid_def hcp_eq lengthBonus_eq)

subsection \<open>Round scoring\<close>

text \<open>
  Claim C3. At \<open>finishRound\<close> the score of every seat grows by
  \<open>bid*10 + (tricks - bid)\<close> when \<open>tricks >= bid\<close> and by \<open>-bid*10\<close> otherwise: by 52 for
  bid 5 and 7 tricks, by -50 for bid 5 and 3 tricks, by 0 for bid 0 and no trick. The
  delta is added to the score the seat had; bid, tricks and hand stay, and the scores
  written to the state are the new ones.
\<close>

theorem finishRound_scores:
  assumes "i < length (players g)"
  shows "let p = players g ! i; p' = players (finishRound g) ! i in
           length (players (finishRound g)) = length (players g) \<and>
           score p' = score p + (if tricks p \<ge> bid p then bid p * 10 + (tricks p - bid p) else - (bid p * 10)) \<and>
           (bid p = 5 \<and> tricks p = 7 \<longrightarrow> score p' = score p + 52) \<and>
           (bid p = 5 \<and> tricks p = 3 \<longrightarrow> score p' = score p + (-50)) \<and>
           (bid p = 0 \<and> tricks p = 0 \<longrightarrow> score p' = score p + 0) \<and>
           bid p' = bid p \<and> tricks p' = tricks p \<and> hand p' = hand p \<and>
           scores (state (finishRound g)) = Some (map score (players (finishRound g)))"
  using assms by (simp add: finishRound_def persistHistory_def Let_def)

theorem finishRound_scores_witness:
  "length (players scored_round) = 4 \<and>
   map bid (players scored_round) = [5, 5, 0, 3] \<and>
   map tricks (players scored_round) = [7, 3, 0, 3] \<and>
   map score (players scored_round) = [10, 0, 0, -20] \<and>
   map score (players (finishRound scored_round)) = [62, -50, 0, 10]"
proof -
  have p: "players scored_round =
      [(Player 0 True)\<lparr>bid := 5, tricks := 7, score := 10\<rparr>, (Player 1 False)\<lparr>bid := 5, tricks := 3\<rparr>,
       (Player 2 False)\<lparr>bid := 0, tricks := 0\<rparr>, (Player 3 False)\<lparr>bid := 3, tricks := 3, score := -20\<rparr>]"
    by (simp add: scored_round_def Game_def)
  have l: "length (players (finishRound scored_round)) = 4"
    using finishRound_scores[of 0 scored_round] by (simp add: p Let_def)
  have s0: "score (players (finishRound scored_round) ! 0) = 62"
    using finishRound_scores[of 0 scored_round] by (simp add: p Let_def Player_def)
  have s1: "score (players (finishRound scored_round) ! 1) = -50"
    using finishRound_scores[of 1 scored_round] by (simp add: p Let_def Player_def)
  have s2: "score (players (finishRound scored_round) ! 2) = 0"
    using finishRound_scores[of 2 scored_round] by (simp add: p Let_def Player_def)
  have s3: "score (players (finishRound scored_round) ! 3) = 10"
    using finishRound_scores[of 3 scored_round] by (simp add: p Let_def Player_def)
  obtain a b c d where q: "players (finishRound scored_round) = [a, b, c, d]"
    using l by (auto simp: length_Suc_conv numeral_eq_Suc)
  show ?thesis
    using s0 s1 s2 s3 by (simp add: q) (simp add: p Player_def)
qed

subsection \<open>Legality of a card of the human seat\<close>

text \<open>
  Claim C9. With no leading suit, \<open>isLegal\<close> returns true for every card. With a leading
  suit, \<open>isLegal(card)\<close> returns true if and only if the hand of the human seat (seat 0)
  holds no card of the leading suit or the card is of the leading suit.
\<close>

theorem isLegal_iff:
  "(leadingSuit g = None \<longrightarrow> isLegal g c = Inr True) \<and>
   (\<forall>l p0 ps. leadingSuit g = Some l \<and> players g = p0 # ps \<longrightarrow>
      isLegal g c = Inr ((\<forall>c' \<in> set (hand p0). suit c' \<noteq> l) \<or> suit c = l))"
  by (auto simp: isLegal_def list_ex_iff)

theorem isLegal_iff_witness:
  "leadingSuit hearts_led = Some Heart \<and>
   isLegal hearts_led \<lparr>suit = Spade, rank = R3\<rparr> = Inr False \<and>
   isLegal hearts_led \<lparr>suit = Heart, rank = R2\<rparr> = Inr True \<and>
   isLegal (hearts_led\<lparr>leadingSuit := None\<rparr>) \<lparr>suit = Spade, rank = R3\<rparr> = Inr True"
  using isLegal_iff[of hearts_led "\<lparr>suit = Spade, rank = R3\<rparr>"]
    isLegal_iff[of hearts_led "\<lparr>suit = Heart, rank = R2\<rparr>"]
    isLegal_iff[of "hearts_led\<lparr>leadingSuit := None\<rparr>" "\<lparr>suit = Spade, rank = R3\<rparr>"]
  by (simp add: hearts_led_def Game_def Player_def)

subsection \<open>Dealing\<close>

lemma random_index: 
  assumes "0 \<le> (r::rat)" "r < 1"
  shows "nat \<lfloor>r * of_nat (Suc n)\<rfloor> \<le> n"
proof -
  have "r * of_nat (Suc n) < 1 * of_nat (Suc n)" using assms
    by (intro mult_strict_right_mono) simp_all
  then have "\<lfloor>r * of_nat (Suc n)\<rfloor> < int (Suc n)" by (simp add: floor_less_iff)
  then show ?thesis by simp
qed

lemma length_shuffle_from: "length (shuffle_from rand k n cards) = length cards"
  by (induction n arbitrary: k cards) (simp_all add: Let_def)

lemma mset_shuffle_from:
  "\<forall>k. 0 \<le> rand k \<and> rand k < 1 \<Longrightarrow> n < length cards \<Longrightarrow>
   mset (shuffle_from rand k n cards) = mset cards"
proof (induction n arbitrary: k cards)
  case 0
  then show ?case by simp
next
  case (Suc n)
  let ?j = "nat \<lfloor>rand k * of_nat (Suc n + 1)\<rfloor>"
  have j: "?j \<le> Suc n" using random_index[of "rand k" "Suc n"] Suc.prems(1) by simp
  let ?cards = "cards[Suc n := cards ! ?j, ?j := cards ! Suc n]"
  have "mset ?cards = mset cards"
    using mset_swap[of ?j cards "Suc n"] j Suc.prems(2) by simp
  moreover have "mset (shuffle_from rand (Suc k) n ?cards) = mset ?cards"
    using Suc.IH[where k = "Suc k" and cards = ?cards] Suc.prems by simp
  ultimately show ?case by (simp add: Let_def)
qed

lemma mset_shuffle:
  "\<forall>k. 0 \<le> rand k \<and> rand k < 1 \<Longrightarrow> mset (shuffle rand cards) = mset cards"
  by (cases "cards = []") (simp_all add: shuffle_def mset_shuffle_from)

lemma length_shuffle: "length (shuffle rand cards) = length cards"
  by (simp add: shuffle_def length_shuffle_from)

lemma deal_each_ok:
  "length ps \<le> length cards \<Longrightarrow>
   \<exists>ps' cards'. deal_each ps cards = Inr (ps', cards') \<and>
     length ps' = length ps \<and>
     length cards' = length cards - length ps \<and>
     map (\<lambda>p. length (hand p)) ps' = map (\<lambda>p. Suc (length (hand p))) ps \<and>
     mset (concat (map hand ps')) + mset cards' = mset (concat (map hand ps)) + mset cards"
proof (induction ps arbitrary: cards)
  case Nil
  then show ?case by simp
next
  case (Cons p ps)
  then have ne: "cards \<noteq> []" by auto
  then have pop: "pop cards = Some (last cards, butlast cards)" by (simp add: pop_def)
  from Cons.prems have "length ps \<le> length (butlast cards)" by simp
  from Cons.IH[OF this] obtain ps' cards' where
    r: "deal_each ps (butlast cards) = Inr (ps', cards')"
    and l: "length ps' = length ps" "length cards' = length (butlast cards) - length ps"
    and h: "map (\<lambda>p. length (hand p)) ps' = map (\<lambda>p. Suc (length (hand p))) ps"
    and m: "mset (concat (map hand ps')) + mset cards' = mset (concat (map hand ps)) + mset (butlast cards)"
    by blast
  have c: "mset (butlast cards) + {#last cards#} = mset cards"
  proof -
    have "mset cards = mset (butlast cards @ [last cards])" using ne by simp
    then show ?thesis by (simp del: append_butlast_last_id)
  qed
  have d: "deal_each (p # ps) cards = Inr (p\<lparr>hand := hand p @ [last cards]\<rparr> # ps', cards')"
    using r by (simp add: pop)
  have "mset (concat (map hand (p\<lparr>hand := hand p @ [last cards]\<rparr> # ps'))) + mset cards'
      = mset (hand p) + {#last cards#} + (mset (concat (map hand ps')) + mset cards')"
    by simp
  also have "\<dots> = mset (hand p) + {#last cards#} + (mset (concat (map hand ps)) + mset (butlast cards))"
    by (simp only: m)
  also have "\<dots> = mset (hand p) + mset (concat (map hand ps)) + (mset (butlast cards) + {#last cards#})"
    by (simp only: ac_simps)
  also have "\<dots> = mset (concat (map hand (p # ps))) + mset cards"
    by (simp only: c) simp
  finally have m': "mset (concat (map hand (p\<lparr>hand := hand p @ [last cards]\<rparr> # ps'))) + mset cards'
      = mset (concat (map hand (p # ps))) + mset cards" .
  have l': "length cards' = length cards - length (p # ps)"
    using l by simp
  show ?case
    apply (rule exI[of _ "p\<lparr>hand := hand p @ [last cards]\<rparr> # ps'"])
    apply (rule exI[of _ cards'])
    using d l(1) l' h m' by simp
qed

lemma deal_loop_ok:
  "n * length ps \<le> length cards \<Longrightarrow>
   \<exists>ps' cards'. deal_loop n ps cards = Inr (ps', cards') \<and>
     length ps' = length ps \<and>
     length cards' = length cards - n * length ps \<and>
     map (\<lambda>p. length (hand p)) ps' = map (\<lambda>p. length (hand p) + n) ps \<and>
     mset (concat (map hand ps')) + mset cards' = mset (concat (map hand ps)) + mset cards"
proof (induction n arbitrary: ps cards)
  case 0
  then show ?case by simp
next
  case (Suc n)
  then have le: "length ps \<le> length cards" by simp
  from deal_each_ok[OF le] obtain ps1 cards1 where
    r1: "deal_each ps cards = Inr (ps1, cards1)"
    and l1: "length ps1 = length ps" "length cards1 = length cards - length ps"
    and h1: "map (\<lambda>p. length (hand p)) ps1 = map (\<lambda>p. Suc (length (hand p))) ps"
    and m1: "mset (concat (map hand ps1)) + mset cards1 = mset (concat (map hand ps)) + mset cards"
    by blast
  have "n * length ps1 \<le> length cards1" using Suc.prems l1 by simp
  from Suc.IH[OF this] obtain ps' cards' where
    r: "deal_loop n ps1 cards1 = Inr (ps', cards')"
    and l: "length ps' = length ps1" "length cards' = length cards1 - n * length ps1"
    and h: "map (\<lambda>p. length (hand p)) ps' = map (\<lambda>p. length (hand p) + n) ps1"
    and m: "mset (concat (map hand ps')) + mset cards' = mset (concat (map hand ps1)) + mset cards1"
    by blast
  have hh: "map (\<lambda>p. length (hand p)) ps' = map (\<lambda>p. length (hand p) + Suc n) ps"
  proof (rule nth_equalityI)
    show "length (map (\<lambda>p. length (hand p)) ps') = length (map (\<lambda>p. length (hand p) + Suc n) ps)"
      using l l1 by simp
  next
    fix i assume "i < length (map (\<lambda>p. length (hand p)) ps')"
    then have i: "i < length ps" "i < length ps1" "i < length ps'" using l l1 by simp_all
    have "length (hand (ps' ! i)) = length (hand (ps1 ! i)) + n"
      using arg_cong[OF h, of "\<lambda>xs. xs ! i"] i by simp
    moreover have "length (hand (ps1 ! i)) = Suc (length (hand (ps ! i)))"
      using arg_cong[OF h1, of "\<lambda>xs. xs ! i"] i by simp
    ultimately show "map (\<lambda>p. length (hand p)) ps' ! i = map (\<lambda>p. length (hand p) + Suc n) ps ! i"
      using i by simp
  qed
  have dl: "deal_loop (Suc n) ps cards = Inr (ps', cards')"
    using r1 r by simp
  have lc: "length cards' = length cards - Suc n * length ps"
    using l l1 by (simp add: add.commute)
  have mm: "mset (concat (map hand ps')) + mset cards' = mset (concat (map hand ps)) + mset cards"
    by (simp only: m m1)
  show ?case
    apply (rule exI[of _ ps'])
    apply (rule exI[of _ cards'])
    using dl l(1) l1(1) lc hh mm by simp
qed

lemma length_Deck: "length Deck = 52"
  by (simp add: Deck_def suits_def ranks_def)

lemma distinct_Deck: "distinct Deck"
  by (simp add: Deck_def suits_def ranks_def)

lemma set_Deck: "set Deck = UNIV"
proof -
  have "c \<in> set Deck" for c
  proof (cases c)
    case (fields s r)
    then show ?thesis
      by (cases s; cases r; simp add: Deck_def suits_def ranks_def)
  qed
  then show ?thesis by auto
qed

lemma four_cases: "i < (4::nat) \<Longrightarrow> i = 0 \<or> i = 1 \<or> i = 2 \<or> i = 3"
  by arith

lemma lessThan_4: "{..<4::nat} = {0, 1, 2, 3}"
  by auto

lemma deal_loop_well_dealt:
  assumes len: "length ps = 4"
    and empty: "\<forall>p \<in> set ps. hand p = []"
    and perm: "mset cards = mset Deck"
  shows "well_dealt (deal_loop 13 ps cards)"
proof -
  have lc: "length cards = 52"
    using perm length_Deck by (metis size_mset)
  then have "13 * length ps \<le> length cards" using len by simp
  from deal_loop_ok[OF this] obtain ps' cards' where
    r: "deal_loop 13 ps cards = Inr (ps', cards')"
    and l: "length ps' = length ps" "length cards' = length cards - 13 * length ps"
    and h: "map (\<lambda>p. length (hand p)) ps' = map (\<lambda>p. length (hand p) + 13) ps"
    and m: "mset (concat (map hand ps')) + mset cards' = mset (concat (map hand ps)) + mset cards"
    by blast
  have c0: "cards' = []" using l lc len by simp
  have "concat (map hand ps) = []" using empty by simp
  then have m': "mset (concat (map hand ps')) = mset Deck"
    using m c0 perm by simp
  have dist: "distinct (concat (map hand ps'))"
    using m' distinct_Deck by (metis mset_eq_imp_distinct_iff)
  have un: "set (concat (map hand ps')) = UNIV"
    using m' set_Deck by (metis mset_eq_setD)
  have h13: "map (\<lambda>p. length (hand p)) ps' = replicate 4 13"
  proof -
    have "map (\<lambda>p. length (hand p) + 13) ps = map (\<lambda>p. 13) ps"
      using empty by simp
    also have "\<dots> = replicate 4 13" using len by (simp add: map_replicate_const)
    finally show ?thesis using h by simp
  qed
  obtain a b c d where ps': "ps' = [a, b, c, d]"
    using l(1) len by (auto simp: length_Suc_conv numeral_eq_Suc)
  have sizes: "length (hand a) = 13" "length (hand b) = 13" "length (hand c) = 13" "length (hand d) = 13"
    using h13 by (simp_all add: ps' numeral_eq_Suc)
  have disj: "set (hand a) \<inter> set (hand b) = {}" "set (hand a) \<inter> set (hand c) = {}"
    "set (hand a) \<inter> set (hand d) = {}" "set (hand b) \<inter> set (hand c) = {}"
    "set (hand b) \<inter> set (hand d) = {}" "set (hand c) \<inter> set (hand d) = {}"
    using dist by (auto simp: ps')
  have un4: "set (hand a) \<union> set (hand b) \<union> set (hand c) \<union> set (hand d) = UNIV"
    using un by (simp add: ps' Un_assoc)
  have p1: "\<forall>i<4. length (hand (ps' ! i)) = 13"
    using sizes by (auto simp: ps' dest!: four_cases)
  have p2: "\<forall>i<4. \<forall>j<4. i \<noteq> j \<longrightarrow> set (hand (ps' ! i)) \<inter> set (hand (ps' ! j)) = {}"
  proof (intro allI impI)
    fix i j :: nat assume "i < 4" "j < 4" "i \<noteq> j"
    then show "set (hand (ps' ! i)) \<inter> set (hand (ps' ! j)) = {}"
      using disj by (auto simp: ps' Int_commute dest!: four_cases)
  qed
  have p3: "(\<Union>i<4. set (hand (ps' ! i))) = UNIV"
    using un4 by (simp add: lessThan_4 ps' Un_assoc)
  show ?thesis
    unfolding well_dealt_def using r c0 l(1) len p1 p2 p3 by simp
qed

text \<open>
  The deal of the second listing adds 13 cards to what a seat holds; \<open>startRound\<close>,
  its only caller, empties the hands on the line before.
\<close>

lemma deal_B_adds_to_hands:
  assumes "length ps = 4"
  shows "map_sum id (\<lambda>r. map (\<lambda>p. length (hand p)) (fst r)) (deal_B rand Deck ps) =
           Inr (map (\<lambda>p. length (hand p) + 13) ps)"
proof -
  have "13 * length ps \<le> length (shuffle rand Deck)"
    using assms by (simp add: length_shuffle length_Deck)
  from deal_loop_ok[OF this] obtain ps' cards' where
    r: "deal_loop 13 ps (shuffle rand Deck) = Inr (ps', cards')"
    and h: "map (\<lambda>p. length (hand p)) ps' = map (\<lambda>p. length (hand p) + 13) ps"
    by blast
  show ?thesis using r h by (simp add: deal_B_def)
qed

text \<open>
  Claim C1. After \<open>deal\<close> with a new deck on an array of four seats, every seat holds
  exactly 13 cards, the four hands are pairwise disjoint, their union is the set of all
  52 cards (every pair of a suit and a rank), and the deck is empty. The deal of the
  first listing empties the hands itself, so this holds whatever the seats held. The
  deal of the second listing is performed by \<open>startRound\<close> alone, on the seats with
  hand and tricks reset (the third part; the second part is the same for any seats with
  empty hands). \<open>Math.random\<close> may return any numbers at least 0 and below 1.
\<close>

theorem deal_well_dealt:
  assumes "length ps = 4" and "\<forall>k. 0 \<le> rand k \<and> rand k < 1"
  shows "well_dealt (deal_A rand Deck ps) \<and>
         ((\<forall>p \<in> set ps. hand p = []) \<longrightarrow> well_dealt (deal_B rand Deck ps)) \<and>
         well_dealt (deal_B rand Deck (map (\<lambda>p. p\<lparr>hand := [], tricks := 0\<rparr>) ps))"
  unfolding deal_A_def deal_B_def
  using assms by (auto intro!: deal_loop_well_dealt simp: mset_shuffle)

theorem deal_well_dealt_witness:
  "length (players second_trick_base) = 4 \<and> (\<forall>k. 0 \<le> no_random k \<and> no_random k < 1) \<and>
   well_dealt (deal_A no_random Deck (players second_trick_base)) \<and>
   list_all (\<lambda>p. hand p = []) (players Game) \<and>
   well_dealt (deal_B no_random Deck (players Game)) \<and>
   well_dealt (deal_B no_random Deck (map (\<lambda>p. p\<lparr>hand := [], tricks := 0\<rparr>) (players second_trick_base)))"
proof -
  have l: "length (players second_trick_base) = 4"
    by (simp add: second_trick_base_def)
  have l': "length (players Game) = 4"
    by (simp add: Game_def)
  have e: "\<forall>p \<in> set (players Game). hand p = []"
    by (simp add: Game_def Player_def)
  have r: "\<forall>k. 0 \<le> no_random k \<and> no_random k < 1"
    by (simp add: no_random_def)
  show ?thesis
    using l r e deal_well_dealt[OF l r] deal_well_dealt[OF l' r]
    by (simp add: list_all_iff)
qed

subsection \<open>Trick resolution with a trump\<close>

text \<open>
  Claim C2 says that a trump play on the table always wins the trick, in whatever order
  the four plays were placed. The trick \<open>trumped_trick\<close> holds the 2 of spades (trump)
  placed before the ace of hearts (the leading suit): \<open>resolveTrick\<close> of the first
  listing gives the trick to seat 2, who played the ace of hearts, because the second
  condition of the loop lets a card of the leading suit replace a winning trump. With
  the spade placed last, the same four cards are won by the spade.
\<close>

theorem resolveTrick_A_trump_beaten:
  "trumpSuit trumped_trick = Spade \<and>
   table trumped_trick = [(0, \<lparr>suit = Heart, rank = R3\<rparr>), (1, \<lparr>suit = Spade, rank = R2\<rparr>),
                          (2, \<lparr>suit = Heart, rank = Ace\<rparr>), (3, \<lparr>suit = Heart, rank = R4\<rparr>)] \<and>
   leadingSuit trumped_trick = Some Heart \<and>
   winning_A trumped_trick = Inr (2, \<lparr>suit = Heart, rank = Ace\<rparr>) \<and>
   map_sum id (\<lambda>r. map tricks (players (fst r))) (resolveTrick_A trumped_trick) = Inr [0, 0, 1, 0] \<and>
   winning_A trump_last_trick = Inr (3, \<lparr>suit = Spade, rank = R2\<rparr>)"
  by (simp add: trumped_trick_def trump_last_trick_def determineTurnOrder_def Game_def Player_def
      placeCard_def winning_A_def winning_step_def card_value_def resolveTrick_A_def add_trick_def)

subsection \<open>The play policy\<close>

text \<open>
  Claim C4 says that a hand with neither a card of the leading suit nor a trump still
  gives the whole hand as candidates in the first listing. On \<open>void_seat\<close> (a diamond
  and a club, hearts led, spades trump) \<open>playCard\<close> of the first listing has no
  candidate: it returns \<open>undefined\<close> and leaves the hand as it is. \<open>playCard\<close> of the
  second listing plays the 9 of clubs from the same hand.
\<close>

theorem playCard_A_void:
  "playCard_A (Some Heart) Spade void_seat = (None, void_seat) \<and>
   playCard_B (Some Heart) void_seat =
     (Some \<lparr>suit = Club, rank = R9\<rparr>, void_seat\<lparr>hand := [\<lparr>suit = Diamond, rank = R5\<rparr>]\<rparr>)"
  by (simp add: playCard_A_def playCard_B_def void_seat_def Player_def or_array_def card_value_def)

text \<open>
  The rest of the policy holds on a hand of distinct cards. In the second listing the
  candidates are the cards of the leading suit, or the whole hand when there is none;
  in the first listing they are the cards of the leading suit, or the trumps when there
  is none, as long as one of the two kinds is in the hand. The chosen card is the
  highest or the lowest candidate, it leaves the hand, and the hand is one card shorter.
  With neither kind in the hand the first listing returns \<open>undefined\<close> and keeps the
  hand.
\<close>

lemma sort_key_head:
  assumes "xs \<noteq> []"
  shows "\<exists>c rest. sort_key f xs = c # rest \<and> c \<in> set xs \<and> (\<forall>x \<in> set xs. f c \<le> f x)"
proof -
  have ne: "sort_key f xs \<noteq> []" using assms by (metis length_sort list.size(3) length_0_conv)
  then obtain c rest where s: "sort_key f xs = c # rest" by (cases "sort_key f xs") auto
  have "sorted (map f (sort_key f xs))" by (rule sorted_sort_key)
  then have "\<forall>x \<in> set rest. f c \<le> f x" by (simp add: s)
  moreover have "set xs = insert c (set rest)" using s by (metis set_sort list.simps(15))
  ultimately show ?thesis using s by auto
qed

lemma length_filter_neq:
  "distinct xs \<Longrightarrow> c \<in> set xs \<Longrightarrow> length (filter (\<lambda>x. x \<noteq> c) xs) = length xs - 1"
proof (induction xs)
  case Nil
  then show ?case by simp
next
  case (Cons a xs)
  show ?case
  proof (cases "a = c")
    case True
    then have "c \<notin> set xs" using Cons.prems by simp
    then have "filter (\<lambda>x. x \<noteq> c) xs = xs" by (auto simp: filter_id_conv)
    then show ?thesis using True by simp
  next
    case False
    then have c: "c \<in> set xs" using Cons.prems by simp
    then have "0 < length xs" by (rule length_pos_if_in_set)
    moreover have "length (filter (\<lambda>x. x \<noteq> c) xs) = length xs - 1"
      using Cons.IH Cons.prems c by simp
    ultimately show ?thesis using False by simp
  qed
qed

lemma set_filter_neq: "set (filter (\<lambda>x. x \<noteq> c) xs) = set xs - {c}"
  by auto

lemma chosen_ok:
  assumes "cands \<noteq> []"
  shows "\<exists>c rest. (if tricks p < bid p then sort_key (\<lambda>c. - card_value c) cands
                     else sort_key card_value cands) = c # rest \<and> choice_ok p cands c"
proof (cases "tricks p < bid p")
  case True
  from sort_key_head[OF assms, of "\<lambda>c. - card_value c"] show ?thesis
    using True by (auto simp: choice_ok_def)
next
  case False
  from sort_key_head[OF assms, of card_value] show ?thesis
    using False by (auto simp: choice_ok_def)
qed

lemma playCard_B_policy:
  assumes "hand p \<noteq> []" and "distinct (hand p)"
  shows "\<exists>c p'. playCard_B lead p = (Some c, p') \<and>
           choice_ok p (if filter (\<lambda>x. Some (suit x) = lead) (hand p) = [] then hand p
                        else filter (\<lambda>x. Some (suit x) = lead) (hand p)) c \<and>
           set (hand p') = set (hand p) - {c} \<and>
           length (hand p') = length (hand p) - 1 \<and>
           p' = p\<lparr>hand := hand p'\<rparr>"
proof -
  let ?fs = "filter (\<lambda>x. Some (suit x) = lead) (hand p)"
  let ?cands = "if ?fs = [] then hand p else ?fs"
  have ne: "?cands \<noteq> []" using assms by simp
  from chosen_ok[OF ne, of p] obtain c rest where
    s: "(if tricks p < bid p then sort_key (\<lambda>c. - card_value c) ?cands
         else sort_key card_value ?cands) = c # rest" and ok: "choice_ok p ?cands c"
    by blast
  have cin: "c \<in> set (hand p)" using ok by (auto simp: choice_ok_def split: if_splits)
  show ?thesis
  proof (cases "?fs = []")
    case True
    let ?h = "if tricks p < bid p then sort_key (\<lambda>c. - card_value c) (hand p)
              else sort_key card_value (hand p)"
    have h: "?h = c # rest" using True s by (simp cong: if_cong)
    have d: "distinct ?h" "set ?h = set (hand p)" "length ?h = length (hand p)"
      using assms by simp_all
    have r: "playCard_B lead p = (Some c, p\<lparr>hand := filter (\<lambda>x. x \<noteq> c) ?h\<rparr>)"
      using True h by (simp add: playCard_B_def Let_def cong: if_cong)
    show ?thesis
      using r ok cin d length_filter_neq[of ?h c] set_filter_neq[of c ?h] True
      by (simp del: set_filter)
  next
    case False
    have r: "playCard_B lead p = (Some c, p\<lparr>hand := filter (\<lambda>x. x \<noteq> c) (hand p)\<rparr>)"
      using False s by (simp add: playCard_B_def Let_def cong: if_cong)
    show ?thesis
      using r ok cin assms length_filter_neq[of "hand p" c] set_filter_neq[of c "hand p"] False
      by (simp del: set_filter)
  qed
qed

lemma playCard_A_policy:
  assumes "distinct (hand p)"
    and "filter (\<lambda>x. Some (suit x) = lead) (hand p) \<noteq> [] \<or> filter (\<lambda>x. suit x = trump) (hand p) \<noteq> []"
  shows "\<exists>c p'. playCard_A lead trump p = (Some c, p') \<and>
           choice_ok p (if filter (\<lambda>x. Some (suit x) = lead) (hand p) = []
                        then filter (\<lambda>x. suit x = trump) (hand p)
                        else filter (\<lambda>x. Some (suit x) = lead) (hand p)) c \<and>
           set (hand p') = set (hand p) - {c} \<and>
           length (hand p') = length (hand p) - 1 \<and>
           p' = p\<lparr>hand := hand p'\<rparr>"
proof -
  let ?fs = "filter (\<lambda>x. Some (suit x) = lead) (hand p)"
  let ?ts = "filter (\<lambda>x. suit x = trump) (hand p)"
  let ?cands = "if ?fs = [] then ?ts else ?fs"
  have ne: "?cands \<noteq> []" using assms by auto
  from chosen_ok[OF ne, of p] obtain c rest where
    s: "(if tricks p < bid p then sort_key (\<lambda>c. - card_value c) ?cands
         else sort_key card_value ?cands) = c # rest" and ok: "choice_ok p ?cands c"
    by blast
  have cin: "c \<in> set (hand p)" using ok by (auto simp: choice_ok_def split: if_splits)
  have r: "playCard_A lead trump p = (Some c, p\<lparr>hand := filter (\<lambda>x. x \<noteq> c) (hand p)\<rparr>)"
  proof (cases "?fs = []")
    case True
    then show ?thesis using True s by (simp add: playCard_A_def Let_def or_array_def cong: if_cong)
  next
    case False
    then show ?thesis using False s by (simp add: playCard_A_def Let_def or_array_def cong: if_cong)
  qed
  show ?thesis
    using r ok cin assms(1) length_filter_neq[of "hand p" c] set_filter_neq[of c "hand p"]
    by (simp del: set_filter)
qed

lemma playCard_A_no_candidate:
  assumes "filter (\<lambda>x. Some (suit x) = lead) (hand p) = []"
    and "filter (\<lambda>x. suit x = trump) (hand p) = []"
  shows "playCard_A lead trump p = (None, p)"
  using assms by (simp add: playCard_A_def Let_def or_array_def cong: if_cong)

subsection \<open>Loading the match state\<close>

text \<open>
  Claim C7 says that loading never fails and that an absent or malformed stored value
  gives the fresh match. It fails on three stored values: a text that is not JSON
  (\<open>loadState\<close> throws a SyntaxError), the JSON text \<open>null\<close> (\<open>restoreHistory\<close> throws a
  TypeError), and the JSON text \<open>{"scores": "ab"}\<close> (the scores of seats 0 and 1 become
  the strings \<open>"a"\<close> and \<open>"b"\<close>).
\<close>

theorem load_match_fails:
  "load_match NotJSON = Inl SyntaxError \<and>
   load_match (JSONText JNull) = Inl TypeError \<and>
   load_match (JSONText (JObj [(''scores'', JStr ''ab'')])) =
     Inr \<lparr>r_scores = [JStr ''a'', JStr ''b'', JNum 0, JNum 0], r_dealerIndex = JNum 0, r_round = JNum 0\<rparr>"
  by (simp add: load_match_def restoreHistory_def upt_rec numeral_eq_Suc)

lemma restoreHistory_not_null: "v \<noteq> JNull \<Longrightarrow> \<exists>r. restoreHistory v = Inr r"
  by (cases v) (auto simp: restoreHistory_def split: option.splits)

lemma restoreHistory_fresh:
  "v \<noteq> JNull \<Longrightarrow> \<forall>sc. get_prop v ''scores'' = Inr sc \<longrightarrow> \<not> truthy sc \<Longrightarrow> restoreHistory v = Inr fresh_match"
  by (cases v) (auto simp: restoreHistory_def split: option.splits)

text \<open>
  Claim C7 as amended. Loading gives the fresh match (all scores 0, dealer index 0,
  round 0) when nothing or an empty text is stored, and when the stored text is JSON
  for a value other than \<open>null\<close> whose \<open>scores\<close> property is absent or falsy. Loading
  succeeds for every stored JSON value other than \<open>null\<close>. A stored text that is not
  JSON ends in a SyntaxError and a stored \<open>null\<close> in a TypeError.
\<close>

theorem load_match_cases:
  "load_match NoItem = Inr fresh_match \<and>
   load_match EmptyText = Inr fresh_match \<and>
   load_match NotJSON = Inl SyntaxError \<and>
   load_match (JSONText JNull) = Inl TypeError \<and>
   (v \<noteq> JNull \<longrightarrow> (\<exists>r. load_match (JSONText v) = Inr r)) \<and>
   (v \<noteq> JNull \<and> (\<forall>sc. get_prop v ''scores'' = Inr sc \<longrightarrow> \<not> truthy sc) \<longrightarrow>
      load_match (JSONText v) = Inr fresh_match)"
  using restoreHistory_not_null[of v] restoreHistory_fresh[of v]
  by (auto simp: load_match_def restoreHistory_def)

theorem load_match_cases_witness:
  "JObj [(''round'', JNum 3)] \<noteq> JNull \<and>
   get_prop (JObj [(''round'', JNum 3)]) ''scores'' = Inr None \<and>
   load_match (JSONText (JObj [(''round'', JNum 3)])) = Inr fresh_match \<and>
   load_match NoItem = Inr fresh_match"
  using load_match_cases[of "JObj [(''round'', JNum 3)]"]
  by simp

subsection \<open>A trick of four plays has a winner\<close>

lemma placeOnTable_fst: "fst (placeOnTable g i c) = placeCard g i c"
  by (simp add: placeOnTable_def placeCard_def Let_def)

lemma place_all_B_eq: "place_all_B g ps = place_all_A g ps"
  by (simp add: place_all_B_def place_all_A_def placeOnTable_fst)

lemma place_all_table: "table (place_all_A g ps) = table g @ ps"
  unfolding place_all_A_def
  by (induction ps arbitrary: g) (simp_all add: placeCard_def)

lemma place_all_lead_set:
  "leadingSuit g = Some l \<Longrightarrow> leadingSuit (place_all_A g ps) = Some l"
  unfolding place_all_A_def
  by (induction ps arbitrary: g) (simp_all add: placeCard_def)

lemma place_all_lead:
  "leadingSuit g = None \<Longrightarrow>
   leadingSuit (place_all_A g (t # ps)) = Some (suit (snd t))"
  using place_all_lead_set[of "placeCard g (fst t) (snd t)" "suit (snd t)" ps]
  by (simp add: place_all_A_def placeCard_def)

lemma place_all_frame:
  "players (place_all_A g ps) = players g \<and> trumpSuit (place_all_A g ps) = trumpSuit g \<and>
   playOrder (place_all_A g ps) = playOrder g \<and> dealerIndex (place_all_A g ps) = dealerIndex g"
  unfolding place_all_A_def
  by (induction ps arbitrary: g) (simp_all add: placeCard_def)

lemma foldl_winning_step_mem:
  "foldl (winning_step trump lead) w ts \<in> insert w (set ts)"
proof (induction ts arbitrary: w)
  case Nil
  then show ?case by simp
next
  case (Cons t ts)
  have "winning_step trump lead w t = w \<or> winning_step trump lead w t = t"
    by (simp add: winning_step_def Let_def)
  then show ?case using Cons[of "winning_step trump lead w t"] by auto
qed

lemma foldl_best_mem:
  "foldl (\<lambda>best t. if card_value (snd t) > card_value (snd best) then t else best) w ts \<in> insert w (set ts)"
proof (induction ts arbitrary: w)
  case Nil
  then show ?case by simp
next
  case (Cons t ts)
  show ?case
  proof (cases "card_value (snd t) > card_value (snd w)")
    case True
    then show ?thesis using Cons.IH[of t] by auto
  next
    case False
    then show ?thesis using Cons.IH[of w] by auto
  qed
qed

lemma winning_A_nonempty:
  "table g \<noteq> [] \<Longrightarrow> \<exists>w. winning_A g = Inr w \<and> w \<in> set (table g)"
  using foldl_winning_step_mem[of "trumpSuit g" "leadingSuit g" "hd (table g)" "table g"]
  by (cases "table g") (auto simp: winning_A_def)

lemma winning_B_nonempty:
  assumes "t \<in> set (table g)" "Some (suit (snd t)) = leadingSuit g"
  shows "\<exists>w. winning_B g = Inr w \<and> w \<in> set (table g) \<and> Some (suit (snd w)) = leadingSuit g"
proof -
  let ?f = "filter (\<lambda>t. Some (suit (snd t)) = leadingSuit g) (table g)"
  have "t \<in> set ?f" using assms by simp
  then obtain t0 ts where f: "?f = t0 # ts" by (cases ?f) auto
  let ?w = "foldl (\<lambda>best t. if card_value (snd t) > card_value (snd best) then t else best) t0 ts"
  have "?w \<in> set ?f" using foldl_best_mem[of t0 ts] f by simp
  then have "?w \<in> set (table g) \<and> Some (suit (snd ?w)) = leadingSuit g" by simp
  moreover have "winning_B g = Inr ?w" by (simp add: winning_B_def f)
  ultimately show ?thesis by blast
qed

text \<open>
  Claim C10. A trick starts with an empty table and no leading suit. After four plays
  placed with \<open>placeCard\<close> (or \<open>placeOnTable\<close>) the table holds these four plays and
  the leading suit is the suit of the first one. So the plays of the leading suit are
  not empty and the reduce of the second listing returns one of them; the table of the
  first listing has a first entry and its loop returns one of the four plays. When the
  seats of the plays are seats of the game, \<open>resolveTrick\<close> of the first listing gives
  the trick to the winner, and so does the second listing.
\<close>

theorem trick_has_winner:
  assumes "length ps = 4"
  shows "let gA = place_all_A (new_trick g) ps; gB = place_all_B (new_trick g) ps in
           table gA = ps \<and> table gB = ps \<and>
           leadingSuit gA = Some (suit (snd (hd ps))) \<and>
           leadingSuit gB = Some (suit (snd (hd ps))) \<and>
           filter (\<lambda>t. Some (suit (snd t)) = leadingSuit gB) (table gB) \<noteq> [] \<and>
           (\<exists>w. winning_B gB = Inr w \<and> w \<in> set ps \<and> Some (suit (snd w)) = leadingSuit gB) \<and>
           (\<exists>t0 ts. table gA = t0 # ts) \<and>
           (\<exists>w. winning_A gA = Inr w \<and> w \<in> set ps) \<and>
           ((\<forall>t \<in> set ps. fst t < length (players g)) \<longrightarrow>
              (\<exists>g'. resolveTrick_A gA = Inr (g', ForAnimation)) \<and>
              (\<exists>w g'. winning_B gB = Inr w \<and> add_trick (fst w) gB = Inr g'))"
proof -
  obtain t ts where ps: "ps = t # ts" using assms by (cases ps) auto
  let ?g = "place_all_A (new_trick g) ps"
  have tab: "table ?g = ps" by (simp add: place_all_table new_trick_def)
  have lead: "leadingSuit ?g = Some (suit (snd (hd ps)))"
    unfolding ps using place_all_lead[of "new_trick g" t ts] by (simp add: new_trick_def)
  have pl: "players ?g = players g" by (simp add: place_all_frame new_trick_def)
  have t: "t \<in> set (table ?g)" "Some (suit (snd t)) = leadingSuit ?g"
    using tab lead by (simp_all add: ps)
  then have ne: "filter (\<lambda>t. Some (suit (snd t)) = leadingSuit ?g) (table ?g) \<noteq> []"
    by (auto simp: filter_empty_conv)
  from winning_B_nonempty[OF t] obtain wB where
    wB: "winning_B ?g = Inr wB" "wB \<in> set ps" "Some (suit (snd wB)) = leadingSuit ?g"
    using tab by auto
  have "table ?g \<noteq> []" using tab ps by simp
  from winning_A_nonempty[OF this] obtain wA where
    wA: "winning_A ?g = Inr wA" "wA \<in> set ps"
    using tab by auto
  have res: "(\<exists>g'. resolveTrick_A ?g = Inr (g', ForAnimation)) \<and>
             (\<exists>w g'. winning_B ?g = Inr w \<and> add_trick (fst w) ?g = Inr g')"
    if "\<forall>t \<in> set ps. fst t < length (players g)"
    using that wA wB pl by (auto simp: resolveTrick_A_def add_trick_def)
  show ?thesis
    unfolding Let_def place_all_B_eq
    using tab lead ne wB wA res ps by auto
qed

theorem trick_has_winner_witness:
  "length (table trumped_trick) = 4 \<and>
   table (place_all_A (new_trick Game) (table trumped_trick)) = table trumped_trick \<and>
   leadingSuit (place_all_A (new_trick Game) (table trumped_trick)) = Some Heart \<and>
   winning_A (place_all_A (new_trick Game) (table trumped_trick)) = Inr (2, \<lparr>suit = Heart, rank = Ace\<rparr>) \<and>
   winning_B (place_all_B (new_trick Game) (table trumped_trick)) = Inr (2, \<lparr>suit = Heart, rank = Ace\<rparr>) \<and>
   map_sum id snd (resolveTrick_A (place_all_A (new_trick Game) (table trumped_trick))) = Inr ForAnimation"
proof -
  have t: "table trumped_trick = [(0, \<lparr>suit = Heart, rank = R3\<rparr>), (1, \<lparr>suit = Spade, rank = R2\<rparr>),
                          (2, \<lparr>suit = Heart, rank = Ace\<rparr>), (3, \<lparr>suit = Heart, rank = R4\<rparr>)]"
    by (simp add: trumped_trick_def determineTurnOrder_def Game_def placeCard_def)
  have l: "length (table trumped_trick) = 4" by (simp add: t)
  have s: "\<forall>t \<in> set (table trumped_trick). fst t < length (players Game)"
    by (simp add: t Game_def)
  note w = trick_has_winner[OF l, of Game, unfolded Let_def]
  have r: "\<exists>g'. resolveTrick_A (place_all_A (new_trick Game) (table trumped_trick)) = Inr (g', ForAnimation)"
    using w s by blast
  have a: "winning_A (place_all_A (new_trick Game) (table trumped_trick)) = Inr (2, \<lparr>suit = Heart, rank = Ace\<rparr>)"
    by (simp add: t place_all_A_def new_trick_def Game_def Player_def placeCard_def
        winning_A_def winning_step_def card_value_def)
  have b: "winning_B (place_all_B (new_trick Game) (table trumped_trick)) = Inr (2, \<lparr>suit = Heart, rank = Ace\<rparr>)"
    by (simp add: t place_all_B_def new_trick_def Game_def Player_def placeOnTable_def
        winning_B_def card_value_def)
  have c: "table (place_all_A (new_trick Game) (table trumped_trick)) = table trumped_trick"
    using w by blast
  have d: "leadingSuit (place_all_A (new_trick Game) (table trumped_trick)) = Some Heart"
    using w by (simp add: t)
  show ?thesis
    using l a b c d r by auto
qed

subsection \<open>The play order of the tricks of a round\<close>


text \<open>
  The second listing makes the winner the dealer but keeps the play order as well:
  in \<open>hearts_trick_B\<close> the play order is 1, 2, 3, 0 and seat 2 wins, and the engine
  then waits for seat 1.
\<close>

lemma next_trick_order_B:
  "resolveTrick_B hearts_trick_B = Inr (new_trick hearts_won_B, ForComputer 1 0) \<and>
   dealerIndex (new_trick hearts_won_B) = 2 \<and>
   playOrder (new_trick hearts_won_B) = [1, 2, 3, 0]"
  by (simp add: hearts_trick_B_def hearts_won_B_def hearts_plays_B_def second_trick_base_def
      place_all_B_def new_trick_def determineTurnOrder_def Game_def Player_def placeOnTable_def
      winning_B_def card_value_def resolveTrick_B_def add_trick_def
      playTrick_B_def nextToPlay_B_def)

lemma finishRound_frame:
  "playOrder (finishRound g) = playOrder g \<and> dealerIndex (finishRound g) = dealerIndex g \<and>
   roundNumber (finishRound g) = roundNumber g \<and> length (players (finishRound g)) = length (players g)"
  by (simp add: finishRound_def persistHistory_def)

lemma add_trick_frame:
  "add_trick i g = Inr g' \<Longrightarrow> playOrder g' = playOrder g \<and> dealerIndex g' = dealerIndex g"
  by (auto simp: add_trick_def split: if_splits)

lemma resolveTrick_A_frame:
  "resolveTrick_A g = Inr (g', w) \<Longrightarrow> playOrder g' = playOrder g \<and> dealerIndex g' = dealerIndex g"
  by (auto simp: resolveTrick_A_def split: sum.splits dest: add_trick_frame)

lemma nextToPlay_A_frame:
  "nextToPlay_A g idx = Inr (g', w) \<Longrightarrow> playOrder g' = playOrder g \<and> dealerIndex g' = dealerIndex g"
  by (auto simp: nextToPlay_A_def Let_def split: if_splits dest: resolveTrick_A_frame)

lemma playTrick_A_frame:
  "playTrick_A g = Inr (g', w) \<Longrightarrow> playOrder g' = playOrder g \<and> dealerIndex g' = dealerIndex g"
  by (auto simp: playTrick_A_def finishRound_frame split: list.splits if_splits dest!: nextToPlay_A_frame)

lemma computerPlays_A_frame:
  "computerPlays_A g i idx = Inr (g', w) \<Longrightarrow> playOrder g' = playOrder g \<and> dealerIndex g' = dealerIndex g"
  by (auto simp: computerPlays_A_def placeCard_def split: if_splits prod.splits option.splits
      dest!: nextToPlay_A_frame)

lemma onCardClick_A_frame:
  "onCardClick_A g c = Some (Inr (g', w)) \<Longrightarrow> playOrder g' = playOrder g \<and> dealerIndex g' = dealerIndex g"
  by (auto simp: onCardClick_A_def placeCard_def Let_def split: sum.splits if_splits list.splits
      dest!: nextToPlay_A_frame)

lemma onHumanBid_A_order:
  "onHumanBid_A g v = Some (Inr (g', w)) \<Longrightarrow>
   playOrder g' = [(dealerIndex g + 1) mod 4, (dealerIndex g + 2) mod 4, (dealerIndex g + 3) mod 4,
                   (dealerIndex g + 4) mod 4] \<and> dealerIndex g' = dealerIndex g"
  by (auto simp: onHumanBid_A_def determineTurnOrder_def
      split: option.splits if_splits list.splits dest!: playTrick_A_frame)

lemma add_trick_keeps:
  "add_trick i g = Inr g' \<Longrightarrow>
   seat0_human g' = seat0_human g \<and> table g' = table g \<and> playOrder g' = playOrder g"
  by (auto simp: add_trick_def seat0_human_def nth_list_update split: if_splits)

lemma finishRound_keeps:
  "seat0_human (finishRound g) = seat0_human g \<and> table (finishRound g) = table g \<and>
   playOrder (finishRound g) = playOrder g"
  by (auto simp: finishRound_def persistHistory_def seat0_human_def Let_def)

lemma playCard_A_keeps: "playCard_A lead trump p = (ch, p') \<Longrightarrow> isHuman p' = isHuman p"
  by (auto simp: playCard_A_def Let_def)

lemma seat0_human_players:
  assumes "seat0_human g" and "length ps' = 4"
    and "\<And>i. i < 4 \<Longrightarrow> isHuman (ps' ! i) = isHuman (players g ! i)"
    and "players g' = ps'"
  shows "seat0_human g'"
  using assms by (simp add: seat0_human_def)

lemma isHuman_head:
  "isHuman p0' = isHuman p0 \<Longrightarrow> isHuman ((p0' # ps) ! i) = isHuman ((p0 # ps) ! i)"
  by (cases i) simp_all

lemma next_in_order:
  assumes "length (playOrder g) = 4" "\<forall>x \<in> set (playOrder g). x < 4" "seat0_human g"
    and "map fst (table g) = take (length (table g)) (playOrder g)"
    and "length (table g) \<le> 4"
    and "nextToPlay_A g (length (table g)) = Inr c'"
  shows "in_order c' \<and> playOrder (fst c') = playOrder g"
proof (cases "length (table g) \<ge> 4")
  case True
  then have l: "length (table g) = 4" using assms(5) by simp
  from assms(6) True obtain g' where r: "resolveTrick_A g = Inr (g', ForAnimation)" and c': "c' = (g', ForAnimation)"
    by (auto simp: nextToPlay_A_def resolveTrick_A_def split: sum.splits)
  then obtain i where "add_trick i g = Inr g'"
    by (auto simp: resolveTrick_A_def split: sum.splits)
  from add_trick_keeps[OF this] show ?thesis
    using assms l by (simp add: in_order_def c')
next
  case False
  let ?k = "length (table g)"
  have k: "?k < 4" using False by simp
  then have "playOrder g ! ?k \<in> set (playOrder g)" using assms(1) by simp
  then have lt: "playOrder g ! ?k < 4" using assms(2) by blast
  have hum: "isHuman (players g ! (playOrder g ! ?k)) = (playOrder g ! ?k = 0)"
    using assms(3) lt by (simp add: seat0_human_def)
  have pl: "length (players g) = 4" using assms(3) by (simp add: seat0_human_def)
  show ?thesis
    using assms(6) k lt hum pl assms(1-4)
    by (auto simp: nextToPlay_A_def Let_def in_order_def split: if_splits)
qed

lemma take_snoc_nth: "k < length xs \<Longrightarrow> take k xs @ [xs ! k] = take (Suc k) xs"
  by (simp add: take_Suc_conv_app_nth)

lemma step_A_cases:
  assumes "step_A c e = Some (Inr c')"
  obtains (computer) g i idx where "c = (g, ForComputer i idx)" "computerPlays_A g i idx = Inr c'"
  | (human) g cd where "c = (g, ForHuman)" "onCardClick_A g cd = Some (Inr c')"
  | (ignored) g where "c = (g, ForHuman)" "c' = c"
  | (animation) g where "c = (g, ForAnimation)" "playTrick_A g = Inr c'"
proof -
  obtain g w where c: "c = (g, w)" by (cases c)
  show ?thesis
  proof (cases w)
    case ForHuman
    show ?thesis
    proof (cases e)
      case (CardClicked cd)
      show ?thesis
      proof (cases "onCardClick_A g cd")
        case None
        then have "c' = c" using assms c ForHuman CardClicked by simp
        then show ?thesis using ignored c ForHuman by simp
      next
        case (Some r)
        then have "onCardClick_A g cd = Some (Inr c')" using assms c ForHuman CardClicked by simp
        then show ?thesis using human c ForHuman by simp
      qed
    qed (use assms c ForHuman in simp_all)
  next
    case (ForComputer i idx)
    show ?thesis
    proof (cases e)
      case TimerFires
      then have "computerPlays_A g i idx = Inr c'" using assms c ForComputer by simp
      then show ?thesis using computer c ForComputer by simp
    qed (use assms c ForComputer in simp_all)
  next
    case ForAnimation
    show ?thesis
    proof (cases e)
      case AnimationEnds
      then have "playTrick_A g = Inr c'" using assms c ForAnimation by simp
      then show ?thesis using animation c ForAnimation by simp
    qed (use assms c ForAnimation in simp_all)
  next
    case ForNextRound
    then show ?thesis using assms c by simp
  qed
qed

lemma step_A_in_order:
  assumes "step_A c e = Some (Inr c')" and "in_order c"
  shows "in_order c' \<and> playOrder (fst c') = playOrder (fst c)"
  using assms(1)
proof (cases rule: step_A_cases)
  case (computer g i idx)
  from assms(2) computer(1) have inv:
    "length (playOrder g) = 4" "\<forall>x \<in> set (playOrder g). x < 4" "seat0_human g"
    "map fst (table g) = take (length (table g)) (playOrder g)"
    "idx = length (table g)" "idx < 4" "i = playOrder g ! idx"
    by (simp_all add: in_order_def)
  have i4: "i < 4" using inv by simp
  have pl: "length (players g) = 4" using inv(3) by (simp add: seat0_human_def)
  obtain ch p' where pc: "playCard_A (leadingSuit g) (trumpSuit g) (players g ! i) = (ch, p')"
    by (cases "playCard_A (leadingSuit g) (trumpSuit g) (players g ! i)")
  from computer(2) pc i4 pl obtain cd where ch: "ch = Some cd"
    by (cases ch) (auto simp: computerPlays_A_def)
  let ?g1 = "placeCard (g\<lparr>players := (players g)[i := p']\<rparr>) i cd"
  have n: "nextToPlay_A ?g1 (idx + 1) = Inr c'"
    using computer(2) pc ch i4 pl by (simp add: computerPlays_A_def)
  have t1: "table ?g1 = table g @ [(i, cd)]" "playOrder ?g1 = playOrder g"
    by (simp_all add: placeCard_def)
  have s1: "seat0_human ?g1"
    using inv(3) playCard_A_keeps[OF pc] i4
    by (auto simp: seat0_human_def placeCard_def nth_list_update)
  have m1: "map fst (table ?g1) = take (length (table ?g1)) (playOrder ?g1)"
    using inv take_snoc_nth[of idx "playOrder g"] by (simp add: placeCard_def)
  have po1: "length (playOrder ?g1) = 4" "\<forall>x \<in> set (playOrder ?g1). x < 4"
    using inv(1,2) by (simp_all add: placeCard_def)
  have le1: "length (table ?g1) \<le> 4" using inv(5,6) by (simp add: placeCard_def)
  have n1: "nextToPlay_A ?g1 (length (table ?g1)) = Inr c'"
    using n inv(5) by (simp add: placeCard_def)
  have "in_order c' \<and> playOrder (fst c') = playOrder ?g1"
    by (rule next_in_order[OF po1 s1 m1 le1 n1])
  then show ?thesis using computer(1) by (simp add: placeCard_def)
next
  case (human g cd)
  from assms(2) human(1) have inv:
    "length (playOrder g) = 4" "\<forall>x \<in> set (playOrder g). x < 4" "seat0_human g"
    "map fst (table g) = take (length (table g)) (playOrder g)"
    "length (table g) < 4" "playOrder g ! length (table g) = 0"
    by (simp_all add: in_order_def)
  have pl: "length (players g) = 4" using inv(3) by (simp add: seat0_human_def)
  then obtain p0 ps where ps: "players g = p0 # ps" by (cases "players g") auto
  let ?g1 = "placeCard (g\<lparr>players := p0\<lparr>hand := filter (\<lambda>c'. c' \<noteq> cd) (hand p0)\<rparr> # ps\<rparr>) 0 cd"
  have n: "nextToPlay_A ?g1 (length (table ?g1)) = Inr c'"
    using human(2) ps by (auto simp: onCardClick_A_def Let_def split: sum.splits if_splits)
  have t1: "table ?g1 = table g @ [(0, cd)]" "playOrder ?g1 = playOrder g"
    by (simp_all add: placeCard_def)
  have s1: "seat0_human ?g1"
  proof (rule seat0_human_players[OF inv(3)])
    show "players ?g1 = p0\<lparr>hand := filter (\<lambda>c'. c' \<noteq> cd) (hand p0)\<rparr> # ps"
      by (simp add: placeCard_def)
  qed (use pl ps isHuman_head[of "p0\<lparr>hand := filter (\<lambda>c'. c' \<noteq> cd) (hand p0)\<rparr>" p0 ps] in simp_all)
  have m1: "map fst (table ?g1) = take (length (table ?g1)) (playOrder ?g1)"
    using inv take_snoc_nth[of "length (table g)" "playOrder g"] by (simp add: placeCard_def)
  have po1: "length (playOrder ?g1) = 4" "\<forall>x \<in> set (playOrder ?g1). x < 4"
    using inv(1,2) by (simp_all add: placeCard_def)
  have le1: "length (table ?g1) \<le> 4" using inv(5) by (simp add: placeCard_def)
  have "in_order c' \<and> playOrder (fst c') = playOrder ?g1"
    by (rule next_in_order[OF po1 s1 m1 le1 n])
  then show ?thesis using human(1) by (simp add: placeCard_def)
next
  case (ignored g)
  then show ?thesis using assms(2) by simp
next
  case (animation g)
  from assms(2) animation(1) have inv:
    "length (playOrder g) = 4" "\<forall>x \<in> set (playOrder g). x < 4" "seat0_human g"
    "map fst (table g) = take (length (table g)) (playOrder g)"
    by (simp_all add: in_order_def)
  have pl: "length (players g) = 4" using inv(3) by (simp add: seat0_human_def)
  then obtain p0 ps where ps: "players g = p0 # ps" by (cases "players g") auto
  show ?thesis
  proof (cases "hand p0 = []")
    case True
    then have "c' = (finishRound g, ForNextRound)"
      using animation(2) ps by (simp add: playTrick_A_def)
    then show ?thesis
      using inv animation(1) finishRound_keeps[of g] by (simp add: in_order_def)
  next
    case False
    let ?g1 = "g\<lparr>table := [], leadingSuit := None\<rparr>"
    have n: "nextToPlay_A ?g1 (length (table ?g1)) = Inr c'"
      using animation(2) ps False by (simp add: playTrick_A_def)
    have s1: "seat0_human ?g1" using inv(3) by (simp add: seat0_human_def)
    have "in_order c' \<and> playOrder (fst c') = playOrder ?g1"
    proof (rule next_in_order)
      show "nextToPlay_A ?g1 (length (table ?g1)) = Inr c'" by (rule n)
    qed (use inv s1 in simp_all)
    then show ?thesis using animation(1) by simp
  qed
qed

lemma run_A_in_order:
  assumes "run_A c es = Some (Inr c')" and "in_order c"
  shows "in_order c' \<and> playOrder (fst c') = playOrder (fst c)"
  using assms
proof (induction es arbitrary: c)
  case Nil
  then show ?case by simp
next
  case (Cons e es)
  from Cons.prems(1) obtain c1 where s: "step_A c e = Some (Inr c1)" and r: "run_A c1 es = Some (Inr c')"
    by (auto split: option.splits sum.splits)
  from step_A_in_order[OF s Cons.prems(2)] Cons.IH[OF r] show ?case by simp
qed

lemma onHumanBid_A_in_order:
  assumes "seat0_human g" and "table g = []" and "onHumanBid_A g v = Some (Inr c0)"
  shows "in_order c0 \<and>
         playOrder (fst c0) = [(dealerIndex g + 1) mod 4, (dealerIndex g + 2) mod 4,
                               (dealerIndex g + 3) mod 4, (dealerIndex g + 4) mod 4]"
proof -
  have pl: "length (players g) = 4" using assms(1) by (simp add: seat0_human_def)
  then obtain p0 ps where ps: "players g = p0 # ps" by (cases "players g") auto
  from assms(3) obtain n where v: "v = Some n"
    by (cases v) (auto simp: onHumanBid_A_def)
  let ?g1 = "determineTurnOrder (g\<lparr>players := p0\<lparr>bid := n\<rparr> # ps\<rparr>)"
  have pt: "playTrick_A ?g1 = Inr c0"
    using assms(3) ps v by (auto simp: onHumanBid_A_def split: if_splits)
  have po: "playOrder ?g1 = [(dealerIndex g + 1) mod 4, (dealerIndex g + 2) mod 4,
                               (dealerIndex g + 3) mod 4, (dealerIndex g + 4) mod 4]"
    by (simp add: determineTurnOrder_def)
  have s1: "seat0_human ?g1"
  proof (rule seat0_human_players[OF assms(1)])
    show "players ?g1 = p0\<lparr>bid := n\<rparr> # ps"
      by (simp add: determineTurnOrder_def)
  qed (use pl ps isHuman_head[of "p0\<lparr>bid := n\<rparr>" p0 ps] in simp_all)
  have t1: "table ?g1 = []" using assms(2) by (simp add: determineTurnOrder_def)
  have pl1: "players ?g1 = p0\<lparr>bid := n\<rparr> # ps" by (simp add: determineTurnOrder_def)
  show ?thesis
  proof (cases "hand p0 = []")
    case True
    then have "c0 = (finishRound ?g1, ForNextRound)"
      using pt pl1 by (simp add: playTrick_A_def)
    then show ?thesis
      using po s1 t1 finishRound_keeps[of ?g1] by (simp add: in_order_def)
  next
    case False
    let ?g2 = "?g1\<lparr>table := [], leadingSuit := None\<rparr>"
    have n: "nextToPlay_A ?g2 (length (table ?g2)) = Inr c0"
      using pt pl1 False by (simp add: playTrick_A_def)
    have s2: "seat0_human ?g2" using s1 by (simp add: seat0_human_def)
    have "in_order c0 \<and> playOrder (fst c0) = playOrder ?g2"
    proof (rule next_in_order)
      show "nextToPlay_A ?g2 (length (table ?g2)) = Inr c0" by (rule n)
    qed (use po s2 in simp_all)
    then show ?thesis using po by simp
  qed
qed



subsection \<open>From one round to the next\<close>

lemma deal_each_frame:
  "deal_each ps cards = Inr (ps', cards') \<Longrightarrow>
   map score ps' = map score ps \<and> map tricks ps' = map tricks ps"
proof (induction ps arbitrary: cards ps' cards')
  case Nil
  then show ?case by simp
next
  case (Cons p ps)
  then show ?case
    by (auto split: option.splits sum.splits prod.splits)
qed

lemma deal_loop_frame:
  "deal_loop n ps cards = Inr (ps', cards') \<Longrightarrow>
   map score ps' = map score ps \<and> map tricks ps' = map tricks ps"
proof (induction n arbitrary: ps cards)
  case 0
  then show ?case by simp
next
  case (Suc n)
  then obtain ps1 cards1 where
    a: "deal_each ps cards = Inr (ps1, cards1)" and b: "deal_loop n ps1 cards1 = Inr (ps', cards')"
    by (auto split: sum.splits)
  show ?case using deal_each_frame[OF a] Suc.IH[OF b] by simp
qed

lemma computer_bids_frame:
  "map score (computer_bids ps) = map score ps \<and> map tricks (computer_bids ps) = map tricks ps \<and>
   length (computer_bids ps) = length ps"
  by (cases ps) (simp_all add: computer_bids_def computeBid_def)

lemma deal_loop_succeeds:
  "length ps = 4 \<Longrightarrow> \<exists>ps' cards'. deal_loop 13 ps (shuffle rand Deck) = Inr (ps', cards') \<and> length ps' = 4"
  using deal_loop_ok[of 13 ps "shuffle rand Deck"]
  by (auto simp: length_shuffle length_Deck)

lemma startRound_A_ok:
  assumes "length (players g) = 4"
  shows "\<exists>g'. startRound_A rand g = Inr g' \<and>
           map tricks (players g') = [0, 0, 0, 0] \<and>
           map score (players g') = map score (players g) \<and>
           roundNumber g' = roundNumber g + 1 \<and>
           dealerIndex g' = (dealerIndex g + 1) mod 4"
proof -
  let ?ps = "map (\<lambda>p. p\<lparr>hand := []\<rparr>) (map (\<lambda>p. p\<lparr>tricks := 0\<rparr>) (players g))"
  have l: "length ?ps = 4" using assms by simp
  from deal_loop_succeeds[OF l] obtain ps' cards' where
    d: "deal_loop 13 ?ps (shuffle rand Deck) = Inr (ps', cards')" and l': "length ps' = 4"
    by blast
  have t: "map tricks ?ps = [0, 0, 0, 0]"
    using assms by (auto simp: length_Suc_conv numeral_eq_Suc comp_def)
  have s: "map score ?ps = map score (players g)" by (simp add: comp_def)
  show ?thesis
    using deal_loop_frame[OF d] computer_bids_frame[of ps'] d t s
    by (simp add: startRound_A_def deal_A_def Let_def)
qed

lemma startRound_B_ok:
  assumes "length (players g) = 4"
  shows "\<exists>g'. startRound_B rand g = Inr g' \<and>
           map tricks (players g') = [0, 0, 0, 0] \<and>
           map score (players g') = map score (players g) \<and>
           roundNumber g' = roundNumber g + 1 \<and>
           dealerIndex g' = (dealerIndex g + 1) mod 4"
proof -
  let ?ps = "map (\<lambda>p. p\<lparr>hand := [], tricks := 0\<rparr>) (players g)"
  have l: "length ?ps = 4" using assms by simp
  from deal_loop_succeeds[OF l] obtain ps' cards' where
    d: "deal_loop 13 ?ps (shuffle rand Deck) = Inr (ps', cards')" and l': "length ps' = 4"
    by blast
  have t: "map tricks ?ps = [0, 0, 0, 0]"
    using assms by (auto simp: length_Suc_conv numeral_eq_Suc comp_def)
  have s: "map score ?ps = map score (players g)" by (simp add: comp_def)
  show ?thesis
    using deal_loop_frame[OF d] computer_bids_frame[of ps'] d t s
    by (simp add: startRound_B_def deal_B_def Let_def)
qed

text \<open>
  Claim C6 says that the dealer index of the next round is the dealer of the round
  before, advanced by one modulo 4. \<open>startRound\<close> of both listings advances the
  dealer index by one, but \<open>resolveTrick\<close> of the second listing has overwritten it
  with the winner of every trick: the round of \<open>last_trick_B\<close> has dealer 0, seat 2
  wins its last trick, and the next round has dealer 3, not 1.
\<close>

theorem dealer_after_round_B:
  "dealerIndex last_trick_B = 0 \<and>
   resolveTrick_B last_trick_B = Inr (finishRound last_won_B, ForNextRound) \<and>
   dealerIndex (finishRound last_won_B) = 2 \<and>
   map_sum id dealerIndex (startRound_B no_random (finishRound last_won_B)) = Inr 3"
proof -
  have a: "dealerIndex last_trick_B = 0"
    by (simp add: last_trick_B_def place_all_B_def placeOnTable_def new_trick_def
        determineTurnOrder_def hearts_plays_B_def)
  have b: "resolveTrick_B last_trick_B = Inr (finishRound last_won_B, ForNextRound)"
    by (simp add: last_trick_B_def last_won_B_def hearts_plays_B_def place_all_B_def new_trick_def
        determineTurnOrder_def Game_def Player_def placeOnTable_def
        winning_B_def card_value_def resolveTrick_B_def add_trick_def playTrick_B_def)
  have c: "dealerIndex (finishRound last_won_B) = 2"
    by (simp add: finishRound_frame) (simp add: last_won_B_def)
  have "length (players (finishRound last_won_B)) = 4"
    by (simp add: finishRound_frame)
      (simp add: last_won_B_def last_trick_B_def hearts_plays_B_def place_all_B_def new_trick_def
        determineTurnOrder_def Game_def placeOnTable_def)
  from startRound_B_ok[OF this, of no_random] c
  have d: "map_sum id dealerIndex (startRound_B no_random (finishRound last_won_B)) = Inr 3"
    by auto
  show ?thesis using a b c d by simp
qed

text \<open>
  The other parts of the transition hold in both listings: after \<open>finishRound\<close> and
  the next \<open>startRound\<close> the tricks of every seat are 0, the scores are as
  \<open>finishRound\<close> left them, the round number has grown by one, and the dealer index is
  the one \<open>startRound\<close> found, plus one, modulo 4.
\<close>

lemma round_transition:
  assumes "length (players g) = 4"
  shows "(\<exists>gA. startRound_A rand (finishRound g) = Inr gA \<and>
            map tricks (players gA) = [0, 0, 0, 0] \<and>
            map score (players gA) = map score (players (finishRound g)) \<and>
            roundNumber gA = roundNumber g + 1 \<and>
            dealerIndex gA = (dealerIndex g + 1) mod 4) \<and>
         (\<exists>gB. startRound_B rand (finishRound g) = Inr gB \<and>
            map tricks (players gB) = [0, 0, 0, 0] \<and>
            map score (players gB) = map score (players (finishRound g)) \<and>
            roundNumber gB = roundNumber g + 1 \<and>
            dealerIndex gB = (dealerIndex g + 1) mod 4) \<and>
         (resolveTrick_A g = Inr (g', w) \<or> playTrick_A g = Inr (g', w) \<or>
          computerPlays_A g i idx = Inr (g', w) \<or> onCardClick_A g c = Some (Inr (g', w))
            \<longrightarrow> dealerIndex g' = dealerIndex g)"
proof -
  have l: "length (players (finishRound g)) = 4"
    using assms by (simp add: finishRound_frame)
  show ?thesis
    using startRound_A_ok[OF l, of rand] startRound_B_ok[OF l, of rand]
      resolveTrick_A_frame[of g g' w] playTrick_A_frame[of g g' w]
      computerPlays_A_frame[of g i idx g' w] onCardClick_A_frame[of g c g' w]
    by (simp add: finishRound_frame)
qed

lemma round_transition_sample:
  "length (players scored_round) = 4 \<and>
   map score (players (finishRound scored_round)) = [62, -50, 0, 10] \<and>
   map_sum id (\<lambda>g. map score (players g)) (startRound_A no_random (finishRound scored_round)) = Inr [62, -50, 0, 10] \<and>
   map_sum id (\<lambda>g. map tricks (players g)) (startRound_A no_random (finishRound scored_round)) = Inr [0, 0, 0, 0] \<and>
   map_sum id roundNumber (startRound_B no_random (finishRound scored_round)) = Inr 1 \<and>
   map_sum id dealerIndex (startRound_B no_random (finishRound scored_round)) = Inr 1 \<and>
   length (players hearts_trick) = 4 \<and>
   resolveTrick_A hearts_trick = Inr (hearts_won, ForAnimation) \<and>
   dealerIndex hearts_won = dealerIndex hearts_trick"
proof -
  have l: "length (players scored_round) = 4"
    by (simp add: scored_round_def Game_def)
  have s: "map score (players (finishRound scored_round)) = [62, -50, 0, 10]"
    by (simp add: scored_round_def Game_def Player_def finishRound_def persistHistory_def)
  have r: "roundNumber scored_round = 0" "dealerIndex scored_round = 0"
    by (simp_all add: scored_round_def Game_def)
  from round_transition[OF l, where rand = no_random and g' = scored_round and w = ForHuman
      and i = 0 and idx = 0 and c = "\<lparr>suit = Heart, rank = R2\<rparr>"]
  obtain gA gB where
    a: "startRound_A no_random (finishRound scored_round) = Inr gA"
      "map tricks (players gA) = [0, 0, 0, 0]"
      "map score (players gA) = map score (players (finishRound scored_round))"
    and b: "startRound_B no_random (finishRound scored_round) = Inr gB"
      "roundNumber gB = roundNumber scored_round + 1"
      "dealerIndex gB = (dealerIndex scored_round + 1) mod 4"
    by (elim conjE exE) (rule that, assumption+)
  have l2: "length (players hearts_trick) = 4"
    by (simp add: hearts_trick_def place_all_A_def placeCard_def new_trick_def determineTurnOrder_def
        second_trick_base_def hearts_plays_def)
  have d: "resolveTrick_A hearts_trick = Inr (hearts_won, ForAnimation)"
    by (simp add: hearts_trick_def hearts_won_def hearts_plays_def second_trick_base_def
      place_all_A_def new_trick_def determineTurnOrder_def Game_def Player_def placeCard_def
      winning_A_def winning_step_def card_value_def resolveTrick_A_def add_trick_def)
  have d': "dealerIndex hearts_won = dealerIndex hearts_trick"
    using round_transition[OF l2, where rand = no_random and g' = hearts_won and w = ForAnimation
      and i = 0 and idx = 0 and c = "\<lparr>suit = Heart, rank = R2\<rparr>",
      THEN conjunct2, THEN conjunct2] d by blast
  show ?thesis
    using l s r a b l2 d d' by simp
qed

text \<open>
  In the first listing no event of a round changes the dealer index, so the dealer of
  the next round is the dealer of the round, advanced by one. In the second listing
  the dealer index after \<open>resolveTrick\<close> is the seat of the winner.
\<close>

lemma step_A_dealer:
  assumes "step_A c e = Some (Inr c')"
  shows "dealerIndex (fst c') = dealerIndex (fst c)"
proof -
  obtain g' w where c': "c' = (g', w)" by (cases c')
  from assms show ?thesis
  proof (cases rule: step_A_cases)
    case (computer g i idx)
    then show ?thesis using computerPlays_A_frame[of g i idx g' w] c' by simp
  next
    case (human g cd)
    then show ?thesis using onCardClick_A_frame[of g cd g' w] c' by simp
  next
    case (ignored g)
    then show ?thesis by simp
  next
    case (animation g)
    then show ?thesis using playTrick_A_frame[of g g' w] c' by simp
  qed
qed

lemma run_A_dealer:
  "run_A c es = Some (Inr c') \<Longrightarrow> dealerIndex (fst c') = dealerIndex (fst c)"
proof (induction es arbitrary: c)
  case Nil
  then show ?case by simp
next
  case (Cons e es)
  from Cons.prems obtain c1 where s: "step_A c e = Some (Inr c1)" and r: "run_A c1 es = Some (Inr c')"
    by (auto split: option.splits sum.splits)
  from step_A_dealer[OF s] Cons.IH[OF r] show ?case by simp
qed

lemma dealer_rotates_A:
  assumes "seat0_human g" and "table g = []"
    and "onHumanBid_A g v = Some (Inr c0)"
    and "run_A c0 es = Some (Inr (g', ForNextRound))"
  shows "\<exists>g''. startRound_A rand g' = Inr g'' \<and> dealerIndex g'' = (dealerIndex g + 1) mod 4"
proof -
  obtain g0 w0 where c0: "c0 = (g0, w0)" by (cases c0)
  have d0: "dealerIndex g0 = dealerIndex g"
    using onHumanBid_A_order[of g v g0 w0] assms(3) c0 by simp
  have d1: "dealerIndex g' = dealerIndex g0"
    using run_A_dealer[OF assms(4)] c0 by simp
  have "in_order c0" using onHumanBid_A_in_order[OF assms(1-3)] by simp
  from run_A_in_order[OF assms(4) this] have "length (players g') = 4"
    by (simp add: in_order_def seat0_human_def)
  from startRound_A_ok[OF this, of rand] show ?thesis
    using d0 d1 by auto
qed

lemma playTrick_B_dealer: "playTrick_B g = Inr (g', w) \<Longrightarrow> dealerIndex g' = dealerIndex g"
  by (auto simp: playTrick_B_def nextToPlay_B_def finishRound_frame Let_def
      split: list.splits if_splits)

lemma resolveTrick_B_dealer:
  "resolveTrick_B g = Inr (g', wt) \<Longrightarrow> \<exists>w. winning_B g = Inr w \<and> dealerIndex g' = fst w"
  by (auto simp: resolveTrick_B_def split: sum.splits dest!: playTrick_B_dealer)

end
